theory Spec2Isabelle
  imports Complex_Main
begin

section \<open>Numeric values\<close>

text \<open>
  The program computes with double-precision numbers (numpy scalars and arrays). A finite
  value is modelled as a real number, and the three special values of IEEE-754 that numpy
  produces instead of raising (a division by zero or an overflow only emits a warning) are
  values of their own.

  The result of an arithmetic operation goes through \<open>rnd\<close>, which keeps the two places
  where double precision leaves the reals altogether: a result at or beyond the overflow
  threshold \<open>2^1024 - 2^970\<close> becomes an infinity, and a result of magnitude at most
  \<open>2^-1075\<close>, half the least positive double, becomes zero. Between the two, the result is
  kept exact where double precision would round it to a neighbouring number; the sign of
  zero is not modelled (a zero divisor counts as positive zero). A real is \<open>in_range\<close> when
  it is zero or a normal double up to rounding.
\<close>

datatype npfloat = Fin real | PInf | NInf | NaN

datatype error = ValueError | IndexError | ZeroDivisionError

definition float_max_bound :: real where
  "float_max_bound = 2 ^ 1024 - 2 ^ 970"

definition float_min_bound :: real where
  "float_min_bound = 1 / 2 ^ 1075"

definition float_min_normal :: real where
  "float_min_normal = 1 / 2 ^ 1022"

definition in_range :: "real \<Rightarrow> bool" where
  "in_range x \<longleftrightarrow> x = 0 \<or> (float_min_normal \<le> \<bar>x\<bar> \<and> \<bar>x\<bar> < float_max_bound)"

text \<open>The infinity with the sign of a non-zero real.\<close>

definition inf_of_sign :: "real \<Rightarrow> npfloat" where
  "inf_of_sign a = (if a = 0 then NaN else if 0 < a then PInf else NInf)"

definition rnd :: "real \<Rightarrow> npfloat" where
  "rnd x = (if float_max_bound \<le> \<bar>x\<bar> then inf_of_sign x
            else if \<bar>x\<bar> \<le> float_min_bound then Fin 0
            else Fin x)"

fun np_isnan :: "npfloat \<Rightarrow> bool" where
  "np_isnan NaN = True"
| "np_isnan _ = False"

fun np_isfinite :: "npfloat \<Rightarrow> bool" where
  "np_isfinite (Fin _) = True"
| "np_isfinite _ = False"

fun np_neg :: "npfloat \<Rightarrow> npfloat" where
  "np_neg (Fin a) = Fin (- a)"
| "np_neg PInf = NInf"
| "np_neg NInf = PInf"
| "np_neg NaN = NaN"

fun np_add :: "npfloat \<Rightarrow> npfloat \<Rightarrow> npfloat" where
  "np_add NaN _ = NaN"
| "np_add _ NaN = NaN"
| "np_add (Fin a) (Fin b) = rnd (a + b)"
| "np_add PInf NInf = NaN"
| "np_add NInf PInf = NaN"
| "np_add PInf _ = PInf"
| "np_add _ PInf = PInf"
| "np_add NInf _ = NInf"
| "np_add _ NInf = NInf"

definition np_sub :: "npfloat \<Rightarrow> npfloat \<Rightarrow> npfloat" where
  "np_sub a b = np_add a (np_neg b)"

fun np_mul :: "npfloat \<Rightarrow> npfloat \<Rightarrow> npfloat" where
  "np_mul NaN _ = NaN"
| "np_mul _ NaN = NaN"
| "np_mul (Fin a) (Fin b) = rnd (a * b)"
| "np_mul (Fin a) PInf = inf_of_sign a"
| "np_mul (Fin a) NInf = inf_of_sign (- a)"
| "np_mul PInf (Fin b) = inf_of_sign b"
| "np_mul NInf (Fin b) = inf_of_sign (- b)"
| "np_mul PInf PInf = PInf"
| "np_mul PInf NInf = NInf"
| "np_mul NInf PInf = NInf"
| "np_mul NInf NInf = PInf"

fun np_div :: "npfloat \<Rightarrow> npfloat \<Rightarrow> npfloat" where
  "np_div NaN _ = NaN"
| "np_div _ NaN = NaN"
| "np_div (Fin a) (Fin b) = (if b \<noteq> 0 then rnd (a / b) else inf_of_sign a)"
| "np_div (Fin a) PInf = Fin 0"
| "np_div (Fin a) NInf = Fin 0"
| "np_div PInf (Fin b) = (if 0 \<le> b then PInf else NInf)"
| "np_div NInf (Fin b) = (if 0 \<le> b then NInf else PInf)"
| "np_div _ _ = NaN"

fun np_sqrt :: "npfloat \<Rightarrow> npfloat" where
  "np_sqrt (Fin a) = (if 0 \<le> a then rnd (sqrt a) else NaN)"
| "np_sqrt PInf = PInf"
| "np_sqrt _ = NaN"

definition np_exp :: "real \<Rightarrow> npfloat" where
  "np_exp x = rnd (exp x)"

fun np_log :: "npfloat \<Rightarrow> npfloat" where
  "np_log (Fin a) = (if 0 < a then Fin (ln a) else if a = 0 then NInf else NaN)"
| "np_log PInf = PInf"
| "np_log _ = NaN"

fun np_sin :: "npfloat \<Rightarrow> npfloat" where
  "np_sin (Fin a) = Fin (sin a)"
| "np_sin _ = NaN"

fun np_cos :: "npfloat \<Rightarrow> npfloat" where
  "np_cos (Fin a) = Fin (cos a)"
| "np_cos _ = NaN"

fun np_arcsin :: "npfloat \<Rightarrow> npfloat" where
  "np_arcsin (Fin x) = (if \<bar>x\<bar> \<le> 1 then Fin (arcsin x) else NaN)"
| "np_arcsin _ = NaN"

text \<open>Comparison: every comparison with \<open>NaN\<close> is false.\<close>

fun np_lt :: "npfloat \<Rightarrow> npfloat \<Rightarrow> bool" where
  "np_lt NaN _ = False"
| "np_lt _ NaN = False"
| "np_lt (Fin a) (Fin b) = (a < b)"
| "np_lt (Fin a) PInf = True"
| "np_lt NInf (Fin b) = True"
| "np_lt NInf PInf = True"
| "np_lt _ _ = False"

fun np_le :: "npfloat \<Rightarrow> npfloat \<Rightarrow> bool" where
  "np_le NaN _ = False"
| "np_le _ NaN = False"
| "np_le a b = (a = b \<or> np_lt a b)"

text \<open>\<open>np.maximum\<close> and \<open>np.minimum\<close> propagate \<open>NaN\<close>; \<open>np.clip\<close> is their composition.\<close>

definition np_maximum :: "npfloat \<Rightarrow> npfloat \<Rightarrow> npfloat" where
  "np_maximum a b = (if np_isnan a \<or> np_isnan b then NaN else if np_lt a b then b else a)"

definition np_minimum :: "npfloat \<Rightarrow> npfloat \<Rightarrow> npfloat" where
  "np_minimum a b = (if np_isnan a \<or> np_isnan b then NaN else if np_lt b a then b else a)"

definition np_clip :: "npfloat \<Rightarrow> npfloat \<Rightarrow> npfloat \<Rightarrow> npfloat" where
  "np_clip u lo hi = np_minimum (np_maximum u lo) hi"

text \<open>
  Python's builtin \<open>min\<close> over a sequence: the first element is the candidate, and a later
  element replaces it only when it compares smaller. An empty sequence raises ValueError.
\<close>

definition py_min :: "npfloat list \<Rightarrow> error + npfloat" where
  "py_min xs = (case xs of [] \<Rightarrow> Inl ValueError
                | x # rest \<Rightarrow> Inr (foldl (\<lambda>m y. if np_lt y m then y else m) x rest))"

section \<open>location.py\<close>

type_synonym coord = "real \<times> real"

definition SW_LAT :: real where "SW_LAT = 52.464011"
definition SW_LON :: real where "SW_LON = 13.274099"
definition NE_LAT :: real where "NE_LAT = 52.586925"
definition NE_LON :: real where "NE_LON = 13.521837"

text \<open>
  A frozen scipy distribution is the record of its parameters: \<open>scs.norm(loc, scale)\<close> and
  \<open>scs.lognorm(s, scale)\<close> store their arguments and check them when a density is
  evaluated.
\<close>

datatype frozen = scs_norm npfloat npfloat | scs_lognorm npfloat npfloat

text \<open>The attributes every \<open>Location\<close> has; the subclasses extend them.\<close>

record Location =
  coords :: "coord list"
  name :: string
  distribution :: frozen

subsection \<open>Location: prob and get_pdf\<close>

text \<open>
  \<open>prob\<close> calls the \<open>distance\<close> method of the subclass and the \<open>pdf\<close> method of the frozen
  distribution; both are arguments here. The density method belongs to scipy and is taken
  as a total function.
\<close>

definition Location_prob ::
  "(coord \<Rightarrow> error + npfloat) \<Rightarrow> (npfloat \<Rightarrow> npfloat) \<Rightarrow> coord \<Rightarrow> error + npfloat" where
  "Location_prob distance_m density point =
     (case distance_m point of
        Inl e \<Rightarrow> Inl e
      | Inr path_dist \<Rightarrow> Inr (density path_dist))"

text \<open>
  A clue object as the grid engine uses it: its \<open>prob\<close> method and its \<open>pdf\<close> attribute,
  \<open>None\<close> until \<open>get_pdf\<close> sets it (\<open>hasattr(self, 'pdf')\<close> is false).
\<close>

record clue =
  prob :: "coord \<Rightarrow> error + npfloat"
  pdf :: "npfloat list option"

text \<open>A list comprehension whose element expression may raise: the first failure ends it.\<close>

fun comprehension :: "('a \<Rightarrow> error + 'b) \<Rightarrow> 'a list \<Rightarrow> error + 'b list" where
  "comprehension f [] = Inr []"
| "comprehension f (x # xs) =
     (case f x of
        Inl e \<Rightarrow> Inl e
      | Inr y \<Rightarrow> (case comprehension f xs of Inl e \<Rightarrow> Inl e | Inr ys \<Rightarrow> Inr (y # ys)))"

text \<open>\<open>get_pdf\<close> returns the object after the call together with the result.\<close>

definition get_pdf :: "clue \<Rightarrow> real list \<Rightarrow> real list \<Rightarrow> clue \<times> (error + npfloat list)" where
  "get_pdf self lats lons =
     (case pdf self of
        Some cached \<Rightarrow> (self, Inr cached)
      | None \<Rightarrow>
          (case comprehension (prob self) (zip lats lons) of
             Inl e \<Rightarrow> (self, Inl e)
           | Inr ps \<Rightarrow> (self\<lparr>pdf := Some ps\<rparr>, Inr ps)))"

text \<open>Successive calls of \<open>get_pdf\<close> on one object, each with a lattice of its own.\<close>

fun get_pdf_calls :: "clue \<Rightarrow> (real list \<times> real list) list \<Rightarrow> (error + npfloat list) list" where
  "get_pdf_calls self [] = []"
| "get_pdf_calls self (lattice # rest) =
     (case get_pdf self (fst lattice) (snd lattice) of
        (self', r) \<Rightarrow> r # get_pdf_calls self' rest)"

subsection \<open>Satellite\<close>

record Satellite = Location +
  R :: real

definition Satellite_init :: "coord list \<Rightarrow> real \<Rightarrow> error + Satellite" where
  "Satellite_init cs ci_range =
     Inr \<lparr>coords = cs, name = ''satellite'',
          distribution = scs_norm (Fin 0) (np_div (Fin ci_range) (Fin 1.96)), R = 6371\<rparr>"

text \<open>\<open>np.radians\<close> and \<open>np.degrees\<close> multiply by a constant.\<close>

definition np_radians :: "npfloat \<Rightarrow> npfloat" where
  "np_radians d = np_mul d (Fin (pi / 180))"

definition np_degrees :: "npfloat \<Rightarrow> npfloat" where
  "np_degrees r = np_mul r (Fin (180 / pi))"

text \<open>The two-argument arctangent of two reals, with values in \<open>(-pi, pi]\<close>.\<close>

definition arctan2 :: "real \<Rightarrow> real \<Rightarrow> real" where
  "arctan2 y x =
     (if 0 < x then arctan (y / x)
      else if x < 0 then (if 0 \<le> y then arctan (y / x) + pi else arctan (y / x) - pi)
      else if 0 < y then pi / 2
      else if y < 0 then - pi / 2
      else 0)"

text \<open>
  \<open>np.arctan2\<close>. In \<open>bearing\<close> its arguments are sums of products of sines and cosines:
  finite numbers or \<open>NaN\<close>, never an infinity.
\<close>

fun np_arctan2 :: "npfloat \<Rightarrow> npfloat \<Rightarrow> npfloat" where
  "np_arctan2 (Fin y) (Fin x) = Fin (arctan2 y x)"
| "np_arctan2 _ _ = NaN"

text \<open>The remainder \<open>x % m\<close> of floats, for a positive modulus; it is computed exactly.\<close>

definition py_mod :: "real \<Rightarrow> real \<Rightarrow> real" where
  "py_mod x m = x - m * of_int \<lfloor>x / m\<rfloor>"

fun np_mod :: "npfloat \<Rightarrow> real \<Rightarrow> npfloat" where
  "np_mod (Fin x) m = Fin (py_mod x m)"
| "np_mod _ m = NaN"

definition bearing :: "coord \<Rightarrow> coord \<Rightarrow> npfloat" where
  "bearing start end =
     (let start_lat = np_radians (Fin (fst start)); start_lon = np_radians (Fin (snd start));
          end_lat = np_radians (Fin (fst end)); end_lon = np_radians (Fin (snd end));
          delta_lon = np_radians (np_sub (Fin (snd end)) (Fin (snd start)));
          br = np_arctan2 (np_mul (np_sin delta_lon) (np_cos end_lat))
                 (np_sub (np_mul (np_cos start_lat) (np_sin end_lat))
                    (np_mul (np_mul (np_sin start_lat) (np_cos end_lat)) (np_cos delta_lon)));
          br = np_mod (np_degrees br) 360
      in br)"

text \<open>
  \<open>vincenty(a, b).km\<close> belongs to geopy; it is the argument \<open>vincenty_km\<close>, which returns a
  Python float or raises (geopy raises ValueError when Vincenty's iteration does not
  converge). Dividing that float by \<open>self.R\<close> is a division of Python numbers, which
  raises ZeroDivisionError for a zero divisor.
\<close>

definition Satellite_distance ::
  "(coord \<Rightarrow> coord \<Rightarrow> error + real) \<Rightarrow> Satellite \<Rightarrow> coord \<Rightarrow> error + npfloat" where
  "Satellite_distance vincenty_km self point =
     (case coords self of
        [sat_start, sat_end] \<Rightarrow>
          (case vincenty_km sat_start point of
             Inl e \<Rightarrow> Inl e
           | Inr km \<Rightarrow>
               if R self = 0 then Inl ZeroDivisionError
               else
                 (let delta_13 = rnd (km / R self);
                      theta_13 = bearing sat_start point;
                      theta_12 = bearing sat_start sat_end
                  in Inr (np_mul
                            (np_arcsin (np_mul (np_sin delta_13)
                                          (np_sin (np_radians (np_sub theta_13 theta_12)))))
                            (Fin (R self)))))
      | _ \<Rightarrow> Inl ValueError)"

subsection \<open>River\<close>

text \<open>The sources are Python 2: \<open>zip\<close> returns a list, so \<open>lines\<close> can be traversed by every
  distance query.\<close>

record River = Location +
  lines :: "(coord \<times> coord) list"

definition convert_xy :: "real \<Rightarrow> real \<Rightarrow> coord" where
  "convert_xy lon lat =
     (let x = (lon - SW_LON) * cos (SW_LAT * pi / 180) * 111.323;
          y = (lat - SW_LAT) * 111.323
      in (x, y))"

definition make_linear :: "coord list \<Rightarrow> (coord \<times> coord) list" where
  "make_linear cs =
     (let xy_coords = map (\<lambda>lon_lat. convert_xy (fst lon_lat) (snd lon_lat)) cs
      in zip (butlast xy_coords) (tl xy_coords))"

definition River_init :: "coord list \<Rightarrow> real \<Rightarrow> error + River" where
  "River_init cs ci_range =
     Inr \<lparr>coords = cs, name = ''river'',
          distribution = scs_norm (Fin 0) (np_div (Fin ci_range) (Fin 1.96)),
          lines = make_linear cs\<rparr>"

definition line_distance :: "coord \<Rightarrow> coord \<times> coord \<Rightarrow> npfloat" where
  "line_distance point line =
     (let start = fst line; end = snd line;
          line_x = np_sub (Fin (fst end)) (Fin (fst start));
          line_y = np_sub (Fin (snd end)) (Fin (snd start));
          line_length = np_sqrt (np_add (np_mul line_x line_x) (np_mul line_y line_y));
          u = np_div (np_add (np_mul (np_sub (Fin (fst point)) (Fin (fst start))) line_x)
                             (np_mul (np_sub (Fin (snd point)) (Fin (snd start))) line_y))
                     (np_mul line_length line_length);
          u = np_clip u (Fin 0) (Fin 1);
          x = np_add (Fin (fst start)) (np_mul u line_x);
          y = np_add (Fin (snd start)) (np_mul u line_y);
          dx = np_sub x (Fin (fst point));
          dy = np_sub y (Fin (snd point));
          dist = np_sqrt (np_add (np_mul dx dx) (np_mul dy dy))
      in dist)"

definition River_distance :: "River \<Rightarrow> coord \<Rightarrow> error + npfloat" where
  "River_distance self point =
     (let xy_point = convert_xy (fst point) (snd point)
      in py_min (map (line_distance xy_point) (lines self)))"

subsection \<open>BGate\<close>

definition set_distribution :: "real \<Rightarrow> real \<Rightarrow> frozen" where
  "set_distribution mean mode =
     (let scale = np_exp mean;
          s = np_sqrt (np_log (np_div scale (Fin mode)))
      in scs_lognorm s scale)"

definition BGate_init :: "coord list \<Rightarrow> real \<Rightarrow> real \<Rightarrow> error + Location" where
  "BGate_init cs mean mode =
     Inr \<lparr>coords = cs, name = ''brandenburger_gate'',
          distribution = set_distribution mean mode\<rparr>"

definition BGate_distance ::
  "(coord \<Rightarrow> coord \<Rightarrow> error + real) \<Rightarrow> Location \<Rightarrow> coord \<Rightarrow> error + npfloat" where
  "BGate_distance vincenty_km self point =
     (case coords self of
        [] \<Rightarrow> Inl IndexError
      | c # _ \<Rightarrow> (case vincenty_km point c of Inl e \<Rightarrow> Inl e | Inr km \<Rightarrow> Inr (Fin km)))"

subsection \<open>The three classes as clue objects\<close>

definition Satellite_clue ::
  "(coord \<Rightarrow> coord \<Rightarrow> error + real) \<Rightarrow> (frozen \<Rightarrow> npfloat \<Rightarrow> npfloat) \<Rightarrow> Satellite \<Rightarrow> clue" where
  "Satellite_clue vincenty_km scs_pdf self =
     \<lparr>prob = Location_prob (Satellite_distance vincenty_km self) (scs_pdf (distribution self)),
      pdf = None\<rparr>"

definition River_clue :: "(frozen \<Rightarrow> npfloat \<Rightarrow> npfloat) \<Rightarrow> River \<Rightarrow> clue" where
  "River_clue scs_pdf self =
     \<lparr>prob = Location_prob (River_distance self) (scs_pdf (distribution self)), pdf = None\<rparr>"

definition BGate_clue ::
  "(coord \<Rightarrow> coord \<Rightarrow> error + real) \<Rightarrow> (frozen \<Rightarrow> npfloat \<Rightarrow> npfloat) \<Rightarrow> Location \<Rightarrow> clue" where
  "BGate_clue vincenty_km scs_pdf self =
     \<lparr>prob = Location_prob (BGate_distance vincenty_km self) (scs_pdf (distribution self)),
      pdf = None\<rparr>"

section \<open>mapper.py\<close>

text \<open>
  \<open>np.linspace(start, stop, n)\<close>: \<open>n\<close> evenly spaced samples with both ends included;
  \<open>np.meshgrid\<close> with its default indexing gives two arrays of \<open>length y\<close> rows and
  \<open>length x\<close> columns, and \<open>flatten\<close> reads them row by row.
\<close>

definition linspace :: "real \<Rightarrow> real \<Rightarrow> nat \<Rightarrow> real list" where
  "linspace start stop n =
     (if n = 1 then [start]
      else map (\<lambda>i. start + real i * ((stop - start) / real (n - 1))) [0..<n])"

definition meshgrid :: "real list \<Rightarrow> real list \<Rightarrow> real list list \<times> real list list" where
  "meshgrid x y = (replicate (length y) x, map (\<lambda>v. replicate (length x) v) y)"

definition flatten :: "real list list \<Rightarrow> real list" where
  "flatten rows = concat rows"

definition generate_mesh_grid :: "nat \<Rightarrow> real list \<times> real list" where
  "generate_mesh_grid n =
     (let x = linspace SW_LAT NE_LAT n;
          y = linspace SW_LON NE_LON n;
          XY = meshgrid x y
      in (flatten (fst XY), flatten (snd XY)))"

text \<open>
  The objects of a Mapper are references: the heap maps a reference to the state of its
  object, so that a density cached through one reference is seen through every other.
\<close>

type_synonym ref = nat
type_synonym heap = "ref \<Rightarrow> clue"

record Mapper =
  objects :: "ref list"
  latitudes :: "real list"
  longitudes :: "real list"

definition Mapper_init :: "ref list \<Rightarrow> nat \<Rightarrow> Mapper" where
  "Mapper_init objs n =
     (let grid = generate_mesh_grid n
      in \<lparr>objects = objs, latitudes = fst grid, longitudes = snd grid\<rparr>)"

definition np_sum :: "npfloat list \<Rightarrow> npfloat" where
  "np_sum xs = foldl np_add (Fin 0) xs"

text \<open>
  \<open>distribution *= probs\<close>: the right operand must have the shape of the left one or a
  single element, which is broadcast; numpy raises ValueError otherwise.
\<close>

definition np_imul :: "npfloat list \<Rightarrow> npfloat list \<Rightarrow> error + npfloat list" where
  "np_imul d probs =
     (if length probs = length d then Inr (map2 np_mul d probs)
      else if length probs = 1 then Inr (map (\<lambda>x. np_mul x (hd probs)) d)
      else Inl ValueError)"

definition np_idiv :: "npfloat list \<Rightarrow> npfloat \<Rightarrow> npfloat list" where
  "np_idiv d s = map (\<lambda>x. np_div x s) d"

text \<open>The loop of \<open>get_distribution\<close>; an exception leaves the heap as it is at that moment.\<close>

fun update_loop ::
  "Mapper \<Rightarrow> heap \<Rightarrow> npfloat list \<Rightarrow> ref list \<Rightarrow> heap \<times> (error + npfloat list)" where
  "update_loop self h d [] = (h, Inr d)"
| "update_loop self h d (obj # objs) =
     (case get_pdf (h obj) (latitudes self) (longitudes self) of
        (ob, Inl e) \<Rightarrow> (h(obj := ob), Inl e)
      | (ob, Inr probs) \<Rightarrow>
          (case np_imul d probs of
             Inl e \<Rightarrow> (h(obj := ob), Inl e)
           | Inr d' \<Rightarrow> update_loop self (h(obj := ob)) d' objs))"

definition get_distribution ::
  "Mapper \<Rightarrow> heap \<Rightarrow> ref list \<Rightarrow> heap \<times> (error + npfloat list)" where
  "get_distribution self h objs =
     (let distribution = replicate (length (latitudes self)) (Fin 1);
          distribution = np_idiv distribution (np_sum distribution)
      in case update_loop self h distribution objs of
           (h', Inl e) \<Rightarrow> (h', Inl e)
         | (h', Inr distribution) \<Rightarrow> (h', Inr (np_idiv distribution (np_sum distribution))))"

text \<open>
  \<open>np.argmax\<close>: the index of the first maximum, where a \<open>NaN\<close> counts as the maximum; an
  empty array raises ValueError.
\<close>

fun argmax_scan :: "npfloat \<Rightarrow> nat \<Rightarrow> nat \<Rightarrow> npfloat list \<Rightarrow> nat" where
  "argmax_scan mp idx i [] = idx"
| "argmax_scan mp idx i (x # xs) =
     (if np_isnan mp then idx
      else if np_le x mp then argmax_scan mp idx (Suc i) xs
      else argmax_scan x i (Suc i) xs)"

definition np_argmax :: "npfloat list \<Rightarrow> error + nat" where
  "np_argmax xs = (case xs of [] \<Rightarrow> Inl ValueError | x # rest \<Rightarrow> Inr (argmax_scan x 0 1 rest))"

definition find_maximum :: "Mapper \<Rightarrow> npfloat list \<Rightarrow> error + coord" where
  "find_maximum self posterior =
     (case np_argmax posterior of
        Inl e \<Rightarrow> Inl e
      | Inr max_idx \<Rightarrow>
          (if max_idx < length (latitudes self) \<and> max_idx < length (longitudes self)
           then Inr (latitudes self ! max_idx, longitudes self ! max_idx)
           else Inl IndexError))"

section \<open>Notions of the specification\<close>

definition euclid :: "coord \<Rightarrow> coord \<Rightarrow> real" where
  "euclid a b = sqrt ((fst a - fst b)\<^sup>2 + (snd a - snd b)\<^sup>2)"

text \<open>The scalar product of \<open>p - a\<close> and \<open>b - a\<close>: negative when \<open>p\<close> projects onto the line
  through \<open>a\<close> and \<open>b\<close> on the far side of \<open>a\<close>.\<close>

definition dot_from :: "coord \<Rightarrow> coord \<Rightarrow> coord \<Rightarrow> real" where
  "dot_from a p b = (fst p - fst a) * (fst b - fst a) + (snd p - snd a) * (snd b - snd a)"

text \<open>The distance from \<open>p\<close> to the infinite line through \<open>s\<close> and \<open>e\<close>.\<close>

definition perpendicular_distance :: "coord \<Rightarrow> coord \<Rightarrow> coord \<Rightarrow> real" where
  "perpendicular_distance p s e =
     \<bar>(fst e - fst s) * (snd p - snd s) - (snd e - snd s) * (fst p - fst s)\<bar> / euclid s e"

text \<open>
  The exact values of the results that \<open>line_distance\<close> computes one after the other. When
  all of them are in range, no step of the computation overflows or underflows.
\<close>

definition line_distance_steps :: "coord \<Rightarrow> coord \<times> coord \<Rightarrow> real list" where
  "line_distance_steps point line =
     (let start = fst line; end = snd line;
          line_x = fst end - fst start;
          line_y = snd end - snd start;
          line_length = sqrt (line_x * line_x + line_y * line_y);
          px = fst point - fst start;
          py = snd point - snd start;
          u0 = (px * line_x + py * line_y) / (line_length * line_length);
          u = min (max u0 0) 1;
          x = fst start + u * line_x;
          y = snd start + u * line_y;
          dx = x - fst point;
          dy = y - snd point
      in [line_x, line_y, line_x * line_x, line_y * line_y,
          line_x * line_x + line_y * line_y, line_length, line_length * line_length,
          px, py, px * line_x, py * line_y, px * line_x + py * line_y, u0,
          u * line_x, u * line_y, x, y, dx, dy, dx * dx, dy * dy, dx * dx + dy * dy,
          sqrt (dx * dx + dy * dy)])"

text \<open>
  The density sequence of a clue over the lattice of a Mapper: what \<open>get_pdf\<close> returns for
  the object behind a reference, in the current heap.
\<close>

definition density_sequence :: "Mapper \<Rightarrow> heap \<Rightarrow> ref \<Rightarrow> error + npfloat list" where
  "density_sequence self h obj = snd (get_pdf (h obj) (latitudes self) (longitudes self))"

text \<open>
  The exact mass of every cell before the final renormalisation, for clues whose density
  sequences are the real lists \<open>P obj\<close>: the uniform prior times the density of each
  selected clue at that cell.
\<close>

definition product_mass :: "Mapper \<Rightarrow> (ref \<Rightarrow> real list) \<Rightarrow> ref list \<Rightarrow> real list" where
  "product_mass self P objs =
     map (\<lambda>i. 1 / real (length (latitudes self)) * prod_list (map (\<lambda>obj. P obj ! i) objs))
       [0..<length (latitudes self)]"

text \<open>A non-negative quotient as double precision returns it: zero when it underflows.\<close>

definition flushed :: "real \<Rightarrow> real" where
  "flushed q = (if q \<le> float_min_bound then 0 else q)"

text \<open>
  The sine of the angular cross-track distance and the cross-track distance of the
  specification, a signed number of kilometres:
  \<open>R * asin (sin (d13 / R) * sin (bearing (pathStart, point) - bearing (pathStart, pathEnd)))\<close>
  with \<open>R = 6371\<close>, for the distance \<open>d13\<close> from the start of the path to the point and the
  two bearings in degrees.
\<close>

definition cross_track_sine :: "real \<Rightarrow> npfloat \<Rightarrow> npfloat \<Rightarrow> npfloat" where
  "cross_track_sine d13 theta_13 theta_12 =
     np_mul (np_sin (rnd (d13 / 6371))) (np_sin (np_radians (np_sub theta_13 theta_12)))"

definition crossTrackDistance :: "real \<Rightarrow> npfloat \<Rightarrow> npfloat \<Rightarrow> npfloat" where
  "crossTrackDistance d13 theta_13 theta_12 =
     np_mul (np_arcsin (cross_track_sine d13 theta_13 theta_12)) (Fin 6371)"

text \<open>
  The \<open>pdf\<close> attribute of a clue agrees with the lattice of a Mapper when it is unset or
  holds the densities computed on this lattice.
\<close>

definition cache_aligned :: "Mapper \<Rightarrow> clue \<Rightarrow> bool" where
  "cache_aligned self c \<longleftrightarrow>
     (case pdf c of
        None \<Rightarrow> True
      | Some ps \<Rightarrow> comprehension (prob c) (zip (latitudes self) (longitudes self)) = Inr ps)"

text \<open>
  The mass of cell \<open>i\<close> before the final renormalisation, for clues whose density sequences
  are the lists \<open>P obj\<close>: the prior mass of a cell, one divided by the sum of as many ones as
  the lattice has cells, multiplied by the density of each clue at the cell.
\<close>

definition cell_mass :: "Mapper \<Rightarrow> (ref \<Rightarrow> npfloat list) \<Rightarrow> ref list \<Rightarrow> nat \<Rightarrow> npfloat" where
  "cell_mass self P objs i =
     foldl (\<lambda>m obj. np_mul m (P obj ! i))
       (np_div (Fin 1) (np_sum (replicate (length (latitudes self)) (Fin 1)))) objs"

text \<open>
  Index \<open>j\<close> is where a sequence has its maximum for the first time; a \<open>NaN\<close> counts as the
  maximum.
\<close>

definition is_first_max :: "npfloat list \<Rightarrow> nat \<Rightarrow> bool" where
  "is_first_max ys j \<longleftrightarrow>
     j < length ys
     \<and> (\<forall>k<length ys. np_isnan (ys ! j) \<or> np_le (ys ! k) (ys ! j))
     \<and> (\<forall>k<j. \<not> np_isnan (ys ! k) \<and> \<not> np_le (ys ! j) (ys ! k))"

section \<open>Auxiliary functions of the proofs\<close>

text \<open>The loop of \<open>get_distribution\<close> as a function of the density sequences alone.\<close>

fun multiply_all ::
  "(ref \<Rightarrow> error + npfloat list) \<Rightarrow> npfloat list \<Rightarrow> ref list \<Rightarrow> error + npfloat list" where
  "multiply_all F d [] = Inr d"
| "multiply_all F d (obj # objs) =
     (case F obj of
        Inl e \<Rightarrow> Inl e
      | Inr probs \<Rightarrow>
          (case np_imul d probs of Inl e \<Rightarrow> Inl e | Inr d' \<Rightarrow> multiply_all F d' objs))"

section \<open>Properties\<close>

subsection \<open>Arithmetic\<close>

lemmas np_defs = inf_of_sign_def np_clip_def np_maximum_def np_minimum_def np_sub_def

lemma float_bounds: "0 < float_min_bound" "float_min_bound < float_min_normal"
  "float_min_normal < 1" "1 < float_max_bound"
  by (simp_all add: float_min_bound_def float_min_normal_def float_max_bound_def)

lemma float_moderate: "float_min_normal \<le> 1 / 2 ^ 64" "2 ^ 64 < float_max_bound"
  by (simp_all add: float_min_normal_def float_max_bound_def)

lemma rnd_0 [simp]: "rnd 0 = Fin 0"
  using float_bounds by (simp add: rnd_def)

lemma in_range_0 [simp]: "in_range 0"
  by (simp add: in_range_def)

lemma rnd_in_range: "in_range x \<Longrightarrow> rnd x = Fin x"
  using float_bounds by (auto simp: rnd_def in_range_def)

lemma in_range_moderate: "1 / 2 ^ 64 \<le> \<bar>x\<bar> \<Longrightarrow> \<bar>x\<bar> \<le> 2 ^ 64 \<Longrightarrow> in_range x"
  using float_moderate by (simp add: in_range_def)

lemma rnd_moderate: "1 / 2 ^ 64 \<le> \<bar>x\<bar> \<Longrightarrow> \<bar>x\<bar> \<le> 2 ^ 64 \<Longrightarrow> rnd x = Fin x"
  by (simp add: rnd_in_range in_range_moderate)

subsection \<open>Location.get_pdf\<close>

lemma get_pdf_sets_cache:
  "get_pdf self lats lons = (self', Inr ps) \<Longrightarrow> pdf self' = Some ps"
  by (auto simp: get_pdf_def split: option.splits sum.splits)

lemma get_pdf_reads_cache:
  "pdf self = Some ps \<Longrightarrow> get_pdf self lats lons = (self, Inr ps)"
  by (simp add: get_pdf_def)

lemma get_pdf_calls_cached:
  "pdf self = Some ps \<Longrightarrow> get_pdf_calls self calls = replicate (length calls) (Inr ps)"
  by (induction calls) (simp_all add: get_pdf_reads_cache)

text \<open>
  C10. Once a call of \<open>get_pdf\<close> has returned a density sequence, every later call on that
  object returns this same sequence and leaves the object as it is, whatever latitudes and
  longitudes the later call passes.
\<close>

theorem get_pdf_cache_ignores_lattice:
  assumes "get_pdf self lats lons = (self', Inr ps)"
  shows "get_pdf self' lats' lons' = (self', Inr ps)
         \<and> get_pdf_calls self' calls = replicate (length calls) (Inr ps)"
  using assms get_pdf_sets_cache get_pdf_reads_cache get_pdf_calls_cached by blast

theorem get_pdf_cache_ignores_lattice_witness:
  "get_pdf \<lparr>prob = (\<lambda>p. Inr (Fin (fst p))), pdf = None\<rparr> [1] [2]
     = (\<lparr>prob = (\<lambda>p. Inr (Fin (fst p))), pdf = Some [Fin 1]\<rparr>, Inr [Fin 1])
   \<and> get_pdf \<lparr>prob = (\<lambda>p. Inr (Fin (fst p))), pdf = Some [Fin 1]\<rparr> [5, 6] [7, 8]
     = (\<lparr>prob = (\<lambda>p. Inr (Fin (fst p))), pdf = Some [Fin 1]\<rparr>, Inr [Fin 1])
   \<and> get_pdf_calls \<lparr>prob = (\<lambda>p. Inr (Fin (fst p))), pdf = Some [Fin 1]\<rparr> [([5, 6], [7, 8]), ([], [])]
     = [Inr [Fin 1], Inr [Fin 1]]"
proof -
  have first: "get_pdf \<lparr>prob = (\<lambda>p. Inr (Fin (fst p))), pdf = None\<rparr> [1] [2]
     = (\<lparr>prob = (\<lambda>p. Inr (Fin (fst p))), pdf = Some [Fin 1]\<rparr>, Inr [Fin 1])"
    by (simp add: get_pdf_def)
  show ?thesis
    using first get_pdf_cache_ignores_lattice [OF first, of "[5, 6]" "[7, 8]" "[([5, 6], [7, 8]), ([], [])]"]
    by (simp del: get_pdf_calls.simps)
qed

subsection \<open>Construction of the clue models\<close>

lemma np_exp_cases: "(\<exists>e>0. np_exp x = Fin e) \<or> np_exp x = Fin 0 \<or> np_exp x = PInf"
  using exp_gt_zero [of x] by (auto simp: np_exp_def rnd_def inf_of_sign_def)

lemma rnd_neg_cases: "a < 0 \<Longrightarrow> (\<exists>v<0. rnd a = Fin v) \<or> rnd a = Fin 0 \<or> rnd a = NInf"
  by (auto simp: rnd_def inf_of_sign_def)

lemma set_distribution_nonpositive_mode:
  assumes "mode \<le> 0"
  shows "set_distribution mean mode
           = scs_lognorm (if mode < 0 \<or> np_exp mean = Fin 0 then NaN else PInf) (np_exp mean)"
proof (cases "mode < 0")
  case True
  consider e where "0 < e" "np_exp mean = Fin e" | "np_exp mean = Fin 0" | "np_exp mean = PInf"
    using np_exp_cases by blast
  then have "np_sqrt (np_log (np_div (np_exp mean) (Fin mode))) = NaN"
  proof cases
    case 1
    have "e / mode < 0" using 1(1) True by (simp add: divide_pos_neg)
    then show ?thesis
      using rnd_neg_cases [of "e / mode"] True by (auto simp: 1(2))
  next
    case 2
    then show ?thesis using True by simp
  next
    case 3
    then show ?thesis using True by simp
  qed
  then show ?thesis using True by (simp add: set_distribution_def Let_def)
next
  case False
  then have m: "mode = 0" using assms by simp
  consider e where "0 < e" "np_exp mean = Fin e" | "np_exp mean = Fin 0" | "np_exp mean = PInf"
    using np_exp_cases by blast
  then show ?thesis
    by cases (auto simp: set_distribution_def Let_def m inf_of_sign_def)
qed

text \<open>
  C3 (as amended). The constructors check nothing and always return an object that holds
  the coordinates and the distribution parameters as they were passed. A River built from
  fewer than two coordinates has no segment, and the failure comes with the distance
  query, which raises ValueError; a Satellite built from a coordinate list that has not
  exactly two elements raises ValueError in every distance query; a non-positive
  confidence range becomes the scale of the normal distribution, a number that is not
  positive; a non-positive mode gives the log-normal distribution a shape parameter that
  is \<open>NaN\<close> or infinite.
\<close>

theorem clue_construction_unchecked:
  "(\<exists>r. River_init cs ci_range = Inr r \<and> coords r = cs \<and> lines r = make_linear cs
        \<and> distribution r = scs_norm (Fin 0) (np_div (Fin ci_range) (Fin 1.96))
        \<and> (length cs < 2 \<longrightarrow> lines r = [] \<and> River_distance r point = Inl ValueError))
   \<and> (\<exists>s. Satellite_init cs ci_range = Inr s \<and> coords s = cs
        \<and> distribution s = scs_norm (Fin 0) (np_div (Fin ci_range) (Fin 1.96))
        \<and> (length cs \<noteq> 2 \<longrightarrow> Satellite_distance vincenty_km s point = Inl ValueError))
   \<and> (ci_range \<le> 0 \<longrightarrow> \<not> np_lt (Fin 0) (np_div (Fin ci_range) (Fin 1.96)))
   \<and> (\<exists>b. BGate_init cs mean mode = Inr b \<and> coords b = cs
        \<and> distribution b = set_distribution mean mode
        \<and> (mode \<le> 0 \<longrightarrow>
             distribution b
               = scs_lognorm (if mode < 0 \<or> np_exp mean = Fin 0 then NaN else PInf)
                   (np_exp mean)))"
proof (intro conjI)
  have "length cs < 2 \<Longrightarrow> make_linear cs = []"
    by (cases cs) (auto simp: make_linear_def)
  then show "\<exists>r. River_init cs ci_range = Inr r \<and> coords r = cs \<and> lines r = make_linear cs
        \<and> distribution r = scs_norm (Fin 0) (np_div (Fin ci_range) (Fin 1.96))
        \<and> (length cs < 2 \<longrightarrow> lines r = [] \<and> River_distance r point = Inl ValueError)"
    by (simp add: River_init_def River_distance_def py_min_def del: np_div.simps)
next
  have "length cs \<noteq> 2 \<Longrightarrow> (case cs of [a, b] \<Rightarrow> f a b | _ \<Rightarrow> Inl ValueError) = Inl ValueError"
    for f :: "coord \<Rightarrow> coord \<Rightarrow> error + npfloat"
    by (auto split: list.splits)
  then show "\<exists>s. Satellite_init cs ci_range = Inr s \<and> coords s = cs
        \<and> distribution s = scs_norm (Fin 0) (np_div (Fin ci_range) (Fin 1.96))
        \<and> (length cs \<noteq> 2 \<longrightarrow> Satellite_distance vincenty_km s point = Inl ValueError)"
    by (simp add: Satellite_init_def Satellite_distance_def del: np_div.simps)
next
  show "ci_range \<le> 0 \<longrightarrow> \<not> np_lt (Fin 0) (np_div (Fin ci_range) (Fin 1.96))"
    by (auto simp: rnd_def inf_of_sign_def)
next
  show "\<exists>b. BGate_init cs mean mode = Inr b \<and> coords b = cs
        \<and> distribution b = set_distribution mean mode
        \<and> (mode \<le> 0 \<longrightarrow>
             distribution b
               = scs_lognorm (if mode < 0 \<or> np_exp mean = Fin 0 then NaN else PInf)
                   (np_exp mean))"
    using set_distribution_nonpositive_mode [of mode mean]
    by (simp add: BGate_init_def)
qed

theorem clue_construction_unchecked_witness:
  "(\<exists>r. River_init [(52.516288, 13.377689)] (- 1) = Inr r \<and> lines r = []
        \<and> River_distance r (52.5, 13.4) = Inl ValueError)
   \<and> (\<exists>s. Satellite_init [(52.516288, 13.377689)] (- 1) = Inr s
        \<and> Satellite_distance (\<lambda>a b. Inr 0) s (52.5, 13.4) = Inl ValueError)
   \<and> \<not> np_lt (Fin 0) (np_div (Fin (- 1)) (Fin 1.96))
   \<and> (\<exists>b. BGate_init [(52.516288, 13.377689)] 4.7 (- 1) = Inr b
        \<and> distribution b = scs_lognorm NaN (np_exp 4.7))"
  using clue_construction_unchecked [where cs = "[(52.516288, 13.377689)]" and ci_range = "- 1"
      and point = "(52.5, 13.4)" and vincenty_km = "\<lambda>a b. Inr 0" and mean = "4.7" and mode = "- 1"]
  by (simp del: np_div.simps, blast)

lemma np_exp_moderate: "0 \<le> x \<Longrightarrow> x \<le> 5 \<Longrightarrow> np_exp x = Fin (exp x)"
proof -
  assume x: "0 \<le> x" "x \<le> 5"
  have "exp x \<le> exp 5" using x by simp
  also have "exp (5::real) = exp 1 ^ 5"
    using exp_of_nat_mult [of 5 "1::real"] by simp
  also have "\<dots> \<le> 3 ^ 5"
    by (intro power_mono) (simp_all add: exp_le)
  finally have "exp x \<le> 2 ^ 64" by simp
  then have hi: "\<bar>exp x\<bar> \<le> 2 ^ 64" by simp
  have "1 \<le> exp x" using x by simp
  moreover have "(1::real) / 2 ^ 64 \<le> 1" by simp
  ultimately have lo: "1 / 2 ^ 64 \<le> \<bar>exp x\<bar>" by linarith
  show ?thesis
    unfolding np_exp_def using lo hi by (rule rnd_moderate)
qed

text \<open>
  C3, the claim as stated fails: a River with one coordinate, a Satellite with no
  coordinate and a confidence range of zero, and a BGate with mode zero are all constructed
  without an error.
\<close>

theorem clue_construction_counterexample:
  "River_init [(52.516288, 13.377689)] 2.73
     = Inr \<lparr>coords = [(52.516288, 13.377689)], name = ''river'',
            distribution = scs_norm (Fin 0) (Fin (2.73 / 1.96)), lines = []\<rparr>
   \<and> Satellite_init [] 0
     = Inr \<lparr>coords = [], name = ''satellite'', distribution = scs_norm (Fin 0) (Fin 0),
            R = 6371\<rparr>
   \<and> BGate_init [(52.516288, 13.377689)] 4.7 0
     = Inr \<lparr>coords = [(52.516288, 13.377689)], name = ''brandenburger_gate'',
            distribution = scs_lognorm PInf (Fin (exp 4.7))\<rparr>"
proof -
  have "np_exp 4.7 = Fin (exp 4.7)"
    by (rule np_exp_moderate) simp_all
  then show ?thesis
    by (simp add: River_init_def make_linear_def Satellite_init_def BGate_init_def
        set_distribution_def Let_def inf_of_sign_def rnd_moderate)
qed

subsection \<open>River.line_distance\<close>

lemma np_mul_zero_cases: "np_mul x (Fin 0) = Fin 0 \<or> np_mul x (Fin 0) = NaN"
  by (cases x) (simp_all add: inf_of_sign_def)

lemma np_sub_self: "np_sub (Fin a) (Fin a) = Fin 0"
  by (simp add: np_sub_def)

lemma line_distance_degenerate: "line_distance p (s, s) = NaN"
proof -
  let ?A = "np_mul (np_sub (Fin (fst p)) (Fin (fst s))) (Fin 0)"
  let ?B = "np_mul (np_sub (Fin (snd p)) (Fin (snd s))) (Fin 0)"
  have "np_add ?A ?B = Fin 0 \<or> np_add ?A ?B = NaN"
    using np_mul_zero_cases [of "np_sub (Fin (fst p)) (Fin (fst s))"]
      np_mul_zero_cases [of "np_sub (Fin (snd p)) (Fin (snd s))"]
    by auto
  then have u: "np_div (np_add ?A ?B) (Fin 0) = NaN"
    by (auto simp: inf_of_sign_def)
  have z: "np_mul (Fin 0) (Fin 0) = Fin 0" "np_add (Fin 0) (Fin 0) = Fin 0"
    "np_sqrt (Fin 0) = Fin 0"
    by simp_all
  show ?thesis
    unfolding line_distance_def Let_def fst_conv snd_conv np_sub_self z u
    by (simp add: np_clip_def np_maximum_def np_minimum_def np_sub_def)
qed

lemma np_lt_nan_right [simp]: "\<not> np_lt a NaN"
  by (cases a) simp_all

lemma py_min_nan_first: "py_min (NaN # rest) = Inr NaN"
proof -
  have "foldl (\<lambda>m y. if np_lt y m then y else m) NaN rest = NaN"
    by (induction rest) simp_all
  then show ?thesis by (simp add: py_min_def)
qed

lemma np_lt_nan_left [simp]: "\<not> np_lt NaN m"
  by simp

lemma foldl_min_drop_nan:
  "foldl (\<lambda>m y. if np_lt y m then y else m) x (xs @ NaN # ys)
     = foldl (\<lambda>m y. if np_lt y m then y else m) x (xs @ ys)"
  by simp

lemma py_min_nan_later: "pre \<noteq> [] \<Longrightarrow> py_min (pre @ NaN # post) = py_min (pre @ post)"
  by (cases pre) (simp_all add: py_min_def)

text \<open>
  C4 (as amended). \<open>line_distance\<close> has no guard for a segment of length zero: for every
  query point and every segment whose start and end coincide it divides zero by zero (numpy
  warns and raises nothing) and returns \<open>NaN\<close>. \<open>River.distance\<close> takes Python's \<open>min\<close> of the
  segment distances, which keeps its first element unless a later one compares smaller:
  it returns \<open>NaN\<close> when the degenerate segment is the first of the polyline, and the result
  it would give without that segment when the segment comes later. No policy is defined.
\<close>

theorem line_distance_degenerate_is_nan:
  "line_distance p (s, s) = NaN
   \<and> River_distance (r\<lparr>lines := (s, s) # post\<rparr>) q = Inr NaN
   \<and> (pre \<noteq> [] \<longrightarrow>
        River_distance (r\<lparr>lines := pre @ (s, s) # post\<rparr>) q
          = River_distance (r\<lparr>lines := pre @ post\<rparr>) q)"
  by (simp add: River_distance_def Let_def line_distance_degenerate py_min_nan_first
      py_min_nan_later)

theorem line_distance_degenerate_is_nan_witness:
  "River_distance \<lparr>coords = [], name = ''river'', distribution = scs_norm (Fin 0) (Fin 1),
                    lines = [((0, 0), (2, 0)), ((0, 0), (0, 0))]\<rparr> (52.5, 13.4)
     = River_distance \<lparr>coords = [], name = ''river'', distribution = scs_norm (Fin 0) (Fin 1),
                        lines = [((0, 0), (2, 0))]\<rparr> (52.5, 13.4)"
  using line_distance_degenerate_is_nan [where pre = "[((0, 0), (2, 0))]" and s = "(0, 0)"
      and post = "[]" and q = "(52.5, 13.4)"
      and r = "\<lparr>coords = [], name = ''river'', distribution = scs_norm (Fin 0) (Fin 1),
                lines = []\<rparr>"]
  by simp

lemma line_distance_example: "line_distance (1, 1) ((0, 0), (2, 0)) = Fin 1"
  by (simp add: line_distance_def Let_def np_defs rnd_moderate)

text \<open>
  C4, the claim as stated fails: for the query point \<open>(1, 1)\<close> and the segment from \<open>(0, 0)\<close>
  to \<open>(0, 0)\<close> the result is \<open>NaN\<close>, not the distance to the point \<open>(0, 0)\<close>; and the segment
  is not skipped: as the first segment of a polyline it makes the minimum \<open>NaN\<close>, where the
  remaining segment alone gives 1.
\<close>

theorem line_distance_degenerate_counterexample:
  "line_distance (1, 1) ((0, 0), (0, 0)) = NaN
   \<and> line_distance (1, 1) ((0, 0), (0, 0)) \<noteq> Fin (euclid (1, 1) (0, 0))
   \<and> py_min (map (line_distance (1, 1)) [((0, 0), (0, 0)), ((0, 0), (2, 0))]) = Inr NaN
   \<and> py_min (map (line_distance (1, 1)) [((0, 0), (2, 0))]) = Inr (Fin 1)"
  by (simp add: line_distance_degenerate line_distance_example py_min_def)

lemma seg_len_pos:
  fixes lx ly :: real
  assumes "lx \<noteq> 0 \<or> ly \<noteq> 0"
  shows "0 < lx * lx + ly * ly"
  using assms by (metis power2_eq_square sum_power2_gt_zero_iff)

lemma np_clip_unit: "np_clip (Fin u) (Fin 0) (Fin 1) = Fin (min (max u 0) 1)"
  by (auto simp: np_clip_def np_maximum_def np_minimum_def min_def max_def)

lemma np_sub_in_range: "in_range (a - b) \<Longrightarrow> np_sub (Fin a) (Fin b) = Fin (a - b)"
  by (simp add: np_sub_def rnd_in_range)

lemma np_add_in_range: "in_range (a + b) \<Longrightarrow> np_add (Fin a) (Fin b) = Fin (a + b)"
  by (simp add: rnd_in_range)

lemma np_mul_in_range: "in_range (a * b) \<Longrightarrow> np_mul (Fin a) (Fin b) = Fin (a * b)"
  by (simp add: rnd_in_range)

lemma np_div_in_range: "b \<noteq> 0 \<Longrightarrow> in_range (a / b) \<Longrightarrow> np_div (Fin a) (Fin b) = Fin (a / b)"
  by (simp add: rnd_in_range)

lemma np_sqrt_in_range: "0 \<le> a \<Longrightarrow> in_range (sqrt a) \<Longrightarrow> np_sqrt (Fin a) = Fin (sqrt a)"
  by (simp add: rnd_in_range)

lemma line_distance_exact:
  fixes px py sx sy ex ey :: real
  assumes ne: "(sx, sy) \<noteq> (ex, ey)"
    and steps: "list_all in_range (line_distance_steps (px, py) ((sx, sy), (ex, ey)))"
  defines "L2 \<equiv> (ex - sx) * (ex - sx) + (ey - sy) * (ey - sy)"
  defines "u \<equiv> ((px - sx) * (ex - sx) + (py - sy) * (ey - sy)) / L2"
  defines "c \<equiv> min (max u 0) 1"
  shows "line_distance (px, py) ((sx, sy), (ex, ey)) =
           Fin (sqrt ((sx + c * (ex - sx) - px) * (sx + c * (ex - sx) - px)
                      + (sy + c * (ey - sy) - py) * (sy + c * (ey - sy) - py)))"
proof -
  have "ex - sx \<noteq> 0 \<or> ey - sy \<noteq> 0" using ne by auto
  then have pos: "0 < L2" unfolding L2_def by (rule seg_len_pos)
  have lsq: "sqrt L2 * sqrt L2 = L2"
    using pos by simp
  note st = steps [unfolded line_distance_steps_def Let_def fst_conv snd_conv list.pred_inject,
      folded L2_def, unfolded lsq, folded u_def, folded c_def]
  have lx: "np_sub (Fin ex) (Fin sx) = Fin (ex - sx)"
    and ly: "np_sub (Fin ey) (Fin sy) = Fin (ey - sy)"
    using st by (simp_all add: rnd_in_range np_sub_def)
  have lxx: "np_mul (Fin (ex - sx)) (Fin (ex - sx)) = Fin ((ex - sx) * (ex - sx))"
    and lyy: "np_mul (Fin (ey - sy)) (Fin (ey - sy)) = Fin ((ey - sy) * (ey - sy))"
    using st by (simp_all add: rnd_in_range np_sub_def)
  have sq: "np_add (Fin ((ex - sx) * (ex - sx))) (Fin ((ey - sy) * (ey - sy))) = Fin L2"
    using st by (simp add: rnd_in_range L2_def)
  have len: "np_sqrt (Fin L2) = Fin (sqrt L2)"
    using st pos by (simp add: rnd_in_range)
  have len2: "np_mul (Fin (sqrt L2)) (Fin (sqrt L2)) = Fin L2"
    using st pos by (simp add: rnd_in_range)
  have ax: "np_sub (Fin px) (Fin sx) = Fin (px - sx)"
    and ay: "np_sub (Fin py) (Fin sy) = Fin (py - sy)"
    using st by (simp_all add: rnd_in_range np_sub_def)
  have axl: "np_mul (Fin (px - sx)) (Fin (ex - sx)) = Fin ((px - sx) * (ex - sx))"
    and ayl: "np_mul (Fin (py - sy)) (Fin (ey - sy)) = Fin ((py - sy) * (ey - sy))"
    using st by (simp_all add: rnd_in_range np_sub_def)
  have num: "np_add (Fin ((px - sx) * (ex - sx))) (Fin ((py - sy) * (ey - sy)))
               = Fin ((px - sx) * (ex - sx) + (py - sy) * (ey - sy))"
    using st by (simp add: rnd_in_range)
  have dv: "np_div (Fin ((px - sx) * (ex - sx) + (py - sy) * (ey - sy))) (Fin L2) = Fin u"
    using st pos by (simp add: rnd_in_range u_def)
  have clip: "np_clip (Fin u) (Fin 0) (Fin 1) = Fin c"
    by (simp add: np_clip_unit c_def)
  have cx: "np_mul (Fin c) (Fin (ex - sx)) = Fin (c * (ex - sx))"
    and cy: "np_mul (Fin c) (Fin (ey - sy)) = Fin (c * (ey - sy))"
    using st by (simp_all add: rnd_in_range np_sub_def)
  have x: "np_add (Fin sx) (Fin (c * (ex - sx))) = Fin (sx + c * (ex - sx))"
    and y: "np_add (Fin sy) (Fin (c * (ey - sy))) = Fin (sy + c * (ey - sy))"
    using st by (simp_all add: rnd_in_range np_sub_def)
  have dx: "np_sub (Fin (sx + c * (ex - sx))) (Fin px) = Fin (sx + c * (ex - sx) - px)"
    and dy: "np_sub (Fin (sy + c * (ey - sy))) (Fin py) = Fin (sy + c * (ey - sy) - py)"
    using st by (simp_all add: rnd_in_range np_sub_def)
  have dxx: "np_mul (Fin (sx + c * (ex - sx) - px)) (Fin (sx + c * (ex - sx) - px))
               = Fin ((sx + c * (ex - sx) - px) * (sx + c * (ex - sx) - px))"
    and dyy: "np_mul (Fin (sy + c * (ey - sy) - py)) (Fin (sy + c * (ey - sy) - py))
               = Fin ((sy + c * (ey - sy) - py) * (sy + c * (ey - sy) - py))"
    using st by (simp_all add: rnd_in_range np_sub_def)
  have dd: "np_add (Fin ((sx + c * (ex - sx) - px) * (sx + c * (ex - sx) - px)))
                   (Fin ((sy + c * (ey - sy) - py) * (sy + c * (ey - sy) - py)))
            = Fin ((sx + c * (ex - sx) - px) * (sx + c * (ex - sx) - px)
                   + (sy + c * (ey - sy) - py) * (sy + c * (ey - sy) - py))"
    using st by (simp add: rnd_in_range)
  have fin: "np_sqrt (Fin ((sx + c * (ex - sx) - px) * (sx + c * (ex - sx) - px)
                   + (sy + c * (ey - sy) - py) * (sy + c * (ey - sy) - py)))
            = Fin (sqrt ((sx + c * (ex - sx) - px) * (sx + c * (ex - sx) - px)
                   + (sy + c * (ey - sy) - py) * (sy + c * (ey - sy) - py)))"
    using st by (intro np_sqrt_in_range) simp_all
  show ?thesis
    unfolding line_distance_def Let_def fst_conv snd_conv
      lx ly lxx lyy sq len len2 ax ay axl ayl num dv clip cx cy x y dx dy dxx dyy dd fin
    by (rule refl)
qed

lemma perp_identity:
  fixes a b lx ly :: real
  assumes "0 < lx * lx + ly * ly"
  defines "u \<equiv> (a * lx + b * ly) / (lx * lx + ly * ly)"
  shows "(u * lx - a) * (u * lx - a) + (u * ly - b) * (u * ly - b)
           = (lx * b - ly * a)\<^sup>2 / (lx * lx + ly * ly)"
proof -
  let ?L = "lx * lx + ly * ly"
  have nz: "?L \<noteq> 0" using assms(1) by linarith
  have "((u * lx - a) * (u * lx - a) + (u * ly - b) * (u * ly - b)) * ?L = (lx * b - ly * a)\<^sup>2"
  proof -
    have uL: "u * ?L = a * lx + b * ly" using nz by (simp add: u_def)
    have "((u * lx - a) * (u * lx - a) + (u * ly - b) * (u * ly - b)) * ?L
            = (u * ?L) * (u * ?L) - 2 * (u * ?L) * (a * lx + b * ly) + (a * a + b * b) * ?L"
      by (simp add: algebra_simps)
    also have "\<dots> = (a * a + b * b) * ?L - (a * lx + b * ly) * (a * lx + b * ly)"
      unfolding uL by (simp add: algebra_simps)
    also have "\<dots> = (lx * b - ly * a)\<^sup>2"
      by (simp add: power2_eq_square algebra_simps)
    finally show ?thesis .
  qed
  then show ?thesis using nz by (simp add: field_simps)
qed

text \<open>
  C8 (as amended). For every query point and every segment with two different ends, when
  no intermediate result of the computation overflows or underflows, \<open>line_distance\<close>
  returns the distance to the start when the projection of the point falls before the
  start, the distance to the end when it falls beyond the end, and the perpendicular
  distance to the line through the segment otherwise.
\<close>

theorem line_distance_clamps:
  assumes "s \<noteq> e" and "list_all in_range (line_distance_steps p (s, e))"
  shows "line_distance p (s, e) =
           Fin (if dot_from s p e < 0 then euclid p s
                else if dot_from e p s < 0 then euclid p e
                else perpendicular_distance p s e)"
proof -
  obtain px py where p: "p = (px, py)" by (cases p)
  obtain sx sy where s: "s = (sx, sy)" by (cases s)
  obtain ex ey where e: "e = (ex, ey)" by (cases e)
  define lx where "lx = ex - sx"
  define ly where "ly = ey - sy"
  define L2 where "L2 = lx * lx + ly * ly"
  define n where "n = (px - sx) * lx + (py - sy) * ly"
  define u where "u = n / L2"
  define c where "c = min (max u 0) 1"
  have ne: "(sx, sy) \<noteq> (ex, ey)" using assms(1) s e by simp
  then have "lx \<noteq> 0 \<or> ly \<noteq> 0" by (auto simp: lx_def ly_def)
  then have pos: "0 < L2" unfolding L2_def by (rule seg_len_pos)
  have steps: "list_all in_range (line_distance_steps (px, py) ((sx, sy), (ex, ey)))"
    using assms(2) by (simp only: p s e)
  have ld: "line_distance p (s, e) =
      Fin (sqrt ((sx + c * lx - px) * (sx + c * lx - px) + (sy + c * ly - py) * (sy + c * ly - py)))"
    unfolding p s e c_def u_def n_def L2_def lx_def ly_def
    by (rule line_distance_exact [OF ne steps])
  have n_start: "dot_from s p e = n"
    by (simp add: dot_from_def p s e n_def lx_def ly_def)
  have n_end: "dot_from e p s = L2 - n"
    by (simp add: dot_from_def p s e n_def L2_def lx_def ly_def algebra_simps)
  consider (before) "n < 0" | (after) "0 \<le> n" "L2 < n" | (inside) "0 \<le> n" "n \<le> L2"
    by linarith
  then show ?thesis
  proof cases
    case before
    then have "u < 0" using pos by (simp add: u_def divide_neg_pos)
    then have "c = 0" by (simp add: c_def)
    then have "line_distance p (s, e) = Fin (euclid p s)"
      unfolding ld by (simp add: euclid_def p s power2_eq_square algebra_simps)
    moreover have "dot_from s p e < 0" using before by (simp only: n_start)
    ultimately show ?thesis by simp
  next
    case after
    then have "1 < u" using pos by (simp add: u_def)
    then have "c = 1" by (simp add: c_def)
    then have "line_distance p (s, e) = Fin (euclid p e)"
      unfolding ld by (simp add: euclid_def p e lx_def ly_def power2_eq_square algebra_simps)
    moreover have "\<not> dot_from s p e < 0" "dot_from e p s < 0"
      using after by (simp_all add: n_start n_end)
    ultimately show ?thesis by simp
  next
    case inside
    then have "0 \<le> u" "u \<le> 1" using pos by (simp_all add: u_def)
    then have c: "c = u" by (simp add: c_def)
    have "(sx + u * lx - px) * (sx + u * lx - px) + (sy + u * ly - py) * (sy + u * ly - py)
            = (u * lx - (px - sx)) * (u * lx - (px - sx)) + (u * ly - (py - sy)) * (u * ly - (py - sy))"
      by (simp add: algebra_simps)
    also have "\<dots> = (lx * (py - sy) - ly * (px - sx))\<^sup>2 / L2"
      unfolding u_def n_def L2_def using pos unfolding L2_def by (rule perp_identity)
    finally have "sqrt ((sx + u * lx - px) * (sx + u * lx - px) + (sy + u * ly - py) * (sy + u * ly - py))
                    = \<bar>lx * (py - sy) - ly * (px - sx)\<bar> / sqrt L2"
      by (simp add: real_sqrt_divide)
    moreover have "euclid s e = sqrt L2"
      by (simp add: euclid_def s e L2_def lx_def ly_def power2_eq_square algebra_simps)
    ultimately have "line_distance p (s, e) = Fin (perpendicular_distance p s e)"
      unfolding ld c by (simp add: perpendicular_distance_def p s e lx_def ly_def)
    moreover have "\<not> dot_from s p e < 0" "\<not> dot_from e p s < 0"
      using inside by (simp_all add: n_start n_end)
    ultimately show ?thesis by simp
  qed
qed

lemma sqrt_25: "sqrt 25 = 5"
  by (rule real_sqrt_unique) simp_all

theorem line_distance_clamps_witness:
  "line_distance (5, 4) ((0, 0), (2, 0)) = Fin 5"
proof -
  have ne: "(0::real, 0::real) \<noteq> (2, 0)" by simp
  have steps: "list_all in_range (line_distance_steps (5, 4) ((0, 0), (2, 0)))"
    by (simp add: line_distance_steps_def Let_def in_range_moderate sqrt_25)
  show ?thesis
    using line_distance_clamps [OF ne steps]
    by (simp add: dot_from_def euclid_def sqrt_25)
qed

lemma line_distance_tiny_segment:
  assumes "rnd eps = Fin eps" "rnd (eps * eps) = Fin 0"
  shows "line_distance (0, 4) ((0, 0), (eps, 0)) = NaN"
proof -
  have lx: "np_sub (Fin eps) (Fin 0) = Fin eps"
    by (simp add: np_sub_def assms(1))
  have z: "np_sub (Fin 0) (Fin 0) = Fin 0" "np_mul (Fin eps) (Fin eps) = Fin 0"
    "np_mul (Fin 0) (Fin 0) = Fin 0" "np_add (Fin 0) (Fin 0) = Fin 0" "np_sqrt (Fin 0) = Fin 0"
    "np_mul (Fin 0) (Fin eps) = Fin 0"
    by (simp_all add: np_sub_def assms(2))
  have py: "np_sub (Fin 4) (Fin 0) = Fin 4" "np_mul (Fin 4) (Fin 0) = Fin 0"
    by (simp_all add: np_sub_def rnd_moderate)
  have u: "np_div (Fin 0) (Fin 0) = NaN"
    by (simp add: inf_of_sign_def)
  show ?thesis
    unfolding line_distance_def Let_def fst_conv snd_conv lx z py u
    by (simp add: np_clip_def np_maximum_def np_minimum_def np_sub_def)
qed

text \<open>
  C8, the claim as stated fails: the segment from \<open>(0, 0)\<close> to \<open>(1 / 10 ^ 200, 0)\<close> is not
  degenerate and the query point \<open>(0, 4)\<close> projects onto its start, at the perpendicular
  distance 4; the squared length of the segment underflows to zero, the projection
  parameter is zero divided by zero, and the result is \<open>NaN\<close>.
\<close>

theorem line_distance_underflow_counterexample:
  "(0::real, 0::real) \<noteq> (1 / 10 ^ 200, 0)
   \<and> \<not> dot_from (0, 0) (0, 4) (1 / 10 ^ 200, 0) < 0
   \<and> \<not> dot_from (1 / 10 ^ 200, 0) (0, 4) (0, 0) < 0
   \<and> perpendicular_distance (0, 4) (0, 0) (1 / 10 ^ 200, 0) = 4
   \<and> line_distance (0, 4) ((0, 0), (1 / 10 ^ 200, 0)) = NaN"
proof -
  have lx: "rnd (1 / 10 ^ 200) = Fin (1 / 10 ^ 200)"
    by (simp add: rnd_def float_max_bound_def float_min_bound_def)
  have lxx: "rnd (1 / 10 ^ 200 * (1 / 10 ^ 200)) = Fin 0"
    by (simp add: rnd_def float_max_bound_def float_min_bound_def)
  have "line_distance (0, 4) ((0, 0), (1 / 10 ^ 200, 0)) = NaN"
    using lx lxx by (rule line_distance_tiny_segment)
  moreover have "perpendicular_distance (0, 4) (0, 0) (1 / 10 ^ 200, 0) = 4"
    by (simp add: perpendicular_distance_def euclid_def)
  ultimately show ?thesis
    by (simp add: dot_from_def)
qed

subsection \<open>Satellite.distance\<close>

lemma sin_ge_half:
  fixes x :: real
  assumes "0 \<le> x" "x \<le> 2 / 3"
  shows "x / 2 \<le> sin x"
proof -
  have "sin 0 - 0 / 2 \<le> sin x - x / 2"
  proof (rule DERIV_nonneg_imp_nondecreasing [OF assms(1)])
    fix t :: real assume t: "0 \<le> t" "t \<le> x"
    have "t \<le> pi / 3" using t assms(2) pi_ge_two by linarith
    then have "cos (pi / 3) \<le> cos t"
      using t pi_ge_two by (intro cos_monotone_0_pi_le) simp_all
    then have "0 \<le> cos t - 1 / 2" by (simp add: cos_60)
    moreover have "((\<lambda>y. sin y - y / 2) has_real_derivative (cos t - 1 / 2)) (at t)"
      by (auto intro!: derivative_eq_intros)
    ultimately show "\<exists>y. ((\<lambda>y. sin y - y / 2) has_real_derivative y) (at t) \<and> 0 \<le> y"
      by blast
  qed
  then show ?thesis by simp
qed

lemma abs_le_abs_arcsin:
  assumes "\<bar>x\<bar> \<le> 1"
  shows "\<bar>x\<bar> \<le> \<bar>arcsin x\<bar>"
proof -
  have nonneg: "y \<le> arcsin y" if "0 \<le> y" "y \<le> 1" for y :: real
  proof -
    have "0 \<le> arcsin y" using that arcsin_le_arcsin [of 0 y] by simp
    then have "sin (arcsin y) \<le> arcsin y" by (rule sin_x_le_x)
    then show ?thesis using that by simp
  qed
  show ?thesis
  proof (cases "0 \<le> x")
    case True
    then show ?thesis using nonneg [of x] assms by simp
  next
    case False
    then have "- x \<le> arcsin (- x)" using nonneg [of "- x"] assms by simp
    then show ?thesis using False assms by (simp add: arcsin_minus)
  qed
qed

lemma rnd_cases: "rnd x = Fin x \<or> rnd x = Fin 0 \<or> rnd x = PInf \<or> rnd x = NInf"
  using float_bounds by (auto simp: rnd_def inf_of_sign_def)

lemma rnd_bounded:
  assumes "\<bar>x\<bar> < float_max_bound"
  shows "\<exists>y. rnd x = Fin y \<and> (y = x \<or> y = 0) \<and> (y = 0 \<or> float_min_bound < \<bar>y\<bar>)"
proof -
  have "\<not> float_max_bound \<le> \<bar>x\<bar>" using assms by simp
  then show ?thesis by (auto simp: rnd_def)
qed

lemma arcsin_abs_bound:
  assumes "\<bar>x\<bar> \<le> 1"
  shows "- (pi / 2) \<le> arcsin x" "arcsin x \<le> pi / 2"
proof -
  have x: "- 1 \<le> x" "x \<le> 1" using assms by (simp_all add: abs_le_iff)
  show "- (pi / 2) \<le> arcsin x" using x by (rule arcsin_lbound)
  show "arcsin x \<le> pi / 2" using x by (rule arcsin_ubound)
qed

lemma cross_track_sine_cases:
  "cross_track_sine d t13 t12 = NaN
   \<or> (\<exists>x. cross_track_sine d t13 t12 = Fin x \<and> \<bar>x\<bar> \<le> 1 \<and> (x = 0 \<or> float_min_bound < \<bar>x\<bar>))"
proof -
  have fin: "\<exists>x. np_mul (Fin (sin u)) (Fin (sin v)) = Fin x \<and> \<bar>x\<bar> \<le> 1
               \<and> (x = 0 \<or> float_min_bound < \<bar>x\<bar>)" for u v :: real
  proof -
    have "\<bar>sin u * sin v\<bar> = \<bar>sin u\<bar> * \<bar>sin v\<bar>" by (simp add: abs_mult)
    also have "\<dots> \<le> 1 * 1" by (intro mult_mono) simp_all
    finally have le: "\<bar>sin u * sin v\<bar> \<le> 1" by simp
    then have "\<bar>sin u * sin v\<bar> < float_max_bound" using float_bounds(4) by linarith
    from rnd_bounded [OF this] le show ?thesis by auto
  qed
  have sin_cases: "np_sin w = NaN \<or> (\<exists>u. np_sin w = Fin (sin u))" for w
    by (cases w) auto
  show ?thesis
    unfolding cross_track_sine_def
    using sin_cases [of "rnd (d / 6371)"] sin_cases [of "np_radians (np_sub t13 t12)"] fin
    by (metis np_mul.simps(1) np_mul.simps(2))
qed

lemma crossTrackDistance_of_sine:
  assumes "cross_track_sine d t13 t12 = Fin x" "\<bar>x\<bar> \<le> 1" "x = 0 \<or> float_min_bound < \<bar>x\<bar>"
  shows "crossTrackDistance d t13 t12 = Fin (arcsin x * 6371)"
proof (cases "x = 0")
  case True
  then show ?thesis by (simp add: crossTrackDistance_def assms(1))
next
  case False
  have b: "- (pi / 2) \<le> arcsin x" "arcsin x \<le> pi / 2"
    using assms(2) by (rule arcsin_abs_bound)+
  have "\<bar>arcsin x * 6371\<bar> \<le> 4 / 2 * 6371"
    using b pi_less_4 by (simp add: abs_mult abs_le_iff)
  then have hi: "\<bar>arcsin x * 6371\<bar> < float_max_bound"
    using float_moderate(2) by simp
  have "float_min_bound < \<bar>x\<bar>" using assms(3) False by simp
  also have "\<bar>x\<bar> \<le> \<bar>arcsin x\<bar>" using assms(2) by (rule abs_le_abs_arcsin)
  also have "\<bar>arcsin x\<bar> \<le> \<bar>arcsin x * 6371\<bar>" by (simp add: abs_mult)
  finally have lo: "float_min_bound < \<bar>arcsin x * 6371\<bar>" .
  have "rnd (arcsin x * 6371) = Fin (arcsin x * 6371)"
    using hi lo by (simp add: rnd_def)
  then show ?thesis
    using assms(2) by (simp add: crossTrackDistance_def assms(1))
qed

lemma pi_180_moderate: "1 / 2 ^ 64 \<le> \<bar>pi / 180\<bar>" "\<bar>pi / 180\<bar> \<le> 2 ^ 64"
  using pi_ge_two pi_less_4 by simp_all

lemma rnd_pi_180: "rnd (pi / 180) = Fin (pi / 180)"
  using pi_180_moderate by (rule rnd_moderate)

lemma sin_pi_180_bounds: "pi / 360 \<le> sin (pi / 180)" "sin (pi / 180) \<le> 1"
proof -
  have "pi / 180 / 2 \<le> sin (pi / 180)"
    using pi_less_4 by (intro sin_ge_half) simp_all
  then show "pi / 360 \<le> sin (pi / 180)" by simp
  show "sin (pi / 180) \<le> 1" by simp
qed

lemma rnd_sin_pi_180: "rnd (sin (pi / 180)) = Fin (sin (pi / 180))"
proof (rule rnd_moderate)
  have "(1 :: real) / 2 ^ 64 \<le> 2 / 360" by simp
  also have "\<dots> \<le> pi / 360" using pi_ge_two by simp
  also have "\<dots> \<le> sin (pi / 180)" by (rule sin_pi_180_bounds)
  finally show "1 / 2 ^ 64 \<le> \<bar>sin (pi / 180)\<bar>" by simp
  have "\<bar>sin (pi / 180)\<bar> \<le> 1" by simp
  also have "(1 :: real) \<le> 2 ^ 64" by simp
  finally show "\<bar>sin (pi / 180)\<bar> \<le> 2 ^ 64" .
qed

lemma bearing_north: "bearing (0, 0) (1, 0) = Fin 0"
proof -
  have pos: "0 < sin (pi / 180)"
    using sin_pi_180_bounds(1) pi_gt_zero by linarith
  have sub: "np_sub (Fin (sin (pi / 180))) (Fin 0) = Fin (sin (pi / 180))"
    by (simp add: np_sub_def rnd_sin_pi_180)
  have atan: "arctan2 0 (sin (pi / 180)) = 0"
    using pos by (simp add: arctan2_def)
  show ?thesis
    unfolding bearing_def Let_def np_radians_def np_degrees_def
    by (simp add: np_sub_def rnd_pi_180 rnd_sin_pi_180 atan py_mod_def)
qed

lemma rnd_half_pi: "rnd (pi / 2) = Fin (pi / 2)" "rnd (- (pi / 2)) = Fin (- (pi / 2))"
proof -
  have "1 / 2 ^ 64 \<le> \<bar>pi / 2\<bar>" "\<bar>pi / 2\<bar> \<le> 2 ^ 64"
    using pi_ge_two pi_less_4 by simp_all
  then show "rnd (pi / 2) = Fin (pi / 2)" by (rule rnd_moderate)
  have "1 / 2 ^ 64 \<le> \<bar>- (pi / 2)\<bar>" "\<bar>- (pi / 2)\<bar> \<le> 2 ^ 64"
    using pi_ge_two pi_less_4 by simp_all
  then show "rnd (- (pi / 2)) = Fin (- (pi / 2))" by (rule rnd_moderate)
qed

lemma rnd_small_numerals: "rnd 1 = Fin 1" "rnd 90 = Fin 90" "rnd (- 90) = Fin (- 90)"
  by (rule rnd_moderate; simp)+

lemma bearing_east: "bearing (0, 0) (0, 90) = Fin 90"
proof -
  have atan: "arctan2 1 0 = pi / 2"
    by (simp add: arctan2_def)
  have py: "py_mod 90 360 = 90"
    by (simp add: py_mod_def)
  show ?thesis
    unfolding bearing_def Let_def np_radians_def np_degrees_def
    by (simp add: np_sub_def rnd_half_pi rnd_small_numerals atan py)
qed

lemma sin_delta_bounds:
  fixes d :: real
  assumes "1 \<le> d" "d \<le> 4000"
  shows "1 / 2 ^ 64 \<le> sin (d / 6371)" "sin (d / 6371) \<le> 1"
proof -
  have "d / 6371 / 2 \<le> sin (d / 6371)"
    using assms by (intro sin_ge_half) simp_all
  moreover have "(1 :: real) / 2 ^ 64 \<le> 1 / 6371 / 2" by simp
  moreover have "1 / 6371 / 2 \<le> d / 6371 / 2" using assms(1) by simp
  ultimately show "1 / 2 ^ 64 \<le> sin (d / 6371)" by linarith
  show "sin (d / 6371) \<le> 1" by simp
qed

lemma rnd_delta:
  fixes d :: real
  assumes "1 \<le> d" "d \<le> 4000"
  shows "rnd (d / 6371) = Fin (d / 6371)"
proof (rule rnd_moderate)
  have "(1 :: real) / 2 ^ 64 \<le> 1 / 6371" by simp
  also have "\<dots> \<le> d / 6371" using assms(1) by simp
  finally show "1 / 2 ^ 64 \<le> \<bar>d / 6371\<bar>" using assms(1) by simp
  have "\<bar>d / 6371\<bar> \<le> 1" using assms by simp
  also have "(1 :: real) \<le> 2 ^ 64" by simp
  finally show "\<bar>d / 6371\<bar> \<le> 2 ^ 64" .
qed

lemma cross_track_sine_left:
  fixes d :: real
  assumes "1 \<le> d" "d \<le> 4000"
  shows "cross_track_sine d (Fin 0) (Fin 90) = Fin (- sin (d / 6371))"
proof -
  note b = sin_delta_bounds [OF assms]
  have s: "rnd (- sin (d / 6371)) = Fin (- sin (d / 6371))"
  proof (rule rnd_moderate)
    show "1 / 2 ^ 64 \<le> \<bar>- sin (d / 6371)\<bar>"
      using b(1) by simp
    have "\<bar>- sin (d / 6371)\<bar> \<le> 1" by simp
    also have "(1 :: real) \<le> 2 ^ 64" by simp
    finally show "\<bar>- sin (d / 6371)\<bar> \<le> 2 ^ 64" .
  qed
  have r: "np_radians (np_sub (Fin 0) (Fin 90)) = Fin (- (pi / 2))"
    by (simp add: np_radians_def np_sub_def rnd_small_numerals rnd_half_pi)
  show ?thesis
    unfolding cross_track_sine_def r rnd_delta [OF assms]
    by (simp add: s)
qed

lemma crossTrackDistance_left:
  fixes d :: real
  assumes "1 \<le> d" "d \<le> 4000"
  shows "crossTrackDistance d (Fin 0) (Fin 90) = Fin (- d)"
proof -
  note b = sin_delta_bounds [OF assms]
  have "crossTrackDistance d (Fin 0) (Fin 90) = Fin (arcsin (- sin (d / 6371)) * 6371)"
  proof (rule crossTrackDistance_of_sine [OF cross_track_sine_left [OF assms]])
    show "\<bar>- sin (d / 6371)\<bar> \<le> 1" by simp
    have "float_min_bound < 1 / 2 ^ 64"
      using float_bounds(2) float_moderate(1) by linarith
    then have "float_min_bound < \<bar>- sin (d / 6371)\<bar>"
      using b(1) by simp
    then show "- sin (d / 6371) = 0 \<or> float_min_bound < \<bar>- sin (d / 6371)\<bar>" ..
  qed
  moreover have "arcsin (sin (d / 6371)) = d / 6371"
    using pi_ge_two assms by (intro arcsin_sin) simp_all
  then have "arcsin (- sin (d / 6371)) * 6371 = - d"
    by (simp add: arcsin_minus)
  ultimately show ?thesis by simp
qed

lemma Satellite_distance_left:
  fixes d :: real
  assumes "1 \<le> d" "d \<le> 4000"
  shows "Satellite_distance (\<lambda>a b. Inr d)
           \<lparr>coords = [(0, 0), (0, 90)], name = nm, distribution = ds, R = 6371\<rparr> (1, 0)
         = Inr (Fin (- d))"
proof -
  have c: "np_mul (np_arcsin (np_mul (np_sin (rnd (d / 6371)))
             (np_sin (np_radians (np_sub (Fin 0) (Fin 90)))))) (Fin 6371) = Fin (- d)"
    using crossTrackDistance_left [OF assms]
    unfolding crossTrackDistance_def cross_track_sine_def .
  show ?thesis
    unfolding Satellite_distance_def
    by (simp add: Let_def bearing_north bearing_east c
        del: np_mul.simps np_arcsin.simps np_sin.simps)
qed

lemma rnd_sigma: "np_div (Fin 2.4) (Fin 1.96) = Fin (2.4 / 1.96)"
proof -
  have "rnd (2.4 / 1.96) = Fin (2.4 / 1.96)"
    by (rule rnd_moderate) simp_all
  then show ?thesis by simp
qed

text \<open>
  C6 (as amended). For a Satellite built from two reference coordinates, \<open>distance\<close> raises what
  geopy's \<open>vincenty\<close> raises (ValueError when its iteration does not converge, as for nearly
  antipodal points); when \<open>vincenty\<close> returns the distance \<open>d13\<close>, the result is the signed
  cross-track value \<open>arcsin (sin (d13 / R) * sin (radians (theta_13 - theta_12))) * R\<close>, with no
  absolute value taken: it is never infinite, a finite result has magnitude at most
  \<open>R * pi / 2\<close>, and it is negative exactly when the product of the two sines is negative.
\<close>

theorem Satellite_distance_signed:
  assumes "Satellite_init [a, b] ci_range = Inr sat"
  shows "(\<forall>e. vincenty_km a p = Inl e \<longrightarrow> Satellite_distance vincenty_km sat p = Inl e)
         \<and> (\<forall>d13. vincenty_km a p = Inr d13 \<longrightarrow>
               Satellite_distance vincenty_km sat p
                 = Inr (crossTrackDistance d13 (bearing a p) (bearing a b))
               \<and> crossTrackDistance d13 (bearing a p) (bearing a b) \<noteq> PInf
               \<and> crossTrackDistance d13 (bearing a p) (bearing a b) \<noteq> NInf
               \<and> (\<forall>x. crossTrackDistance d13 (bearing a p) (bearing a b) = Fin x
                       \<longrightarrow> \<bar>x\<bar> \<le> 6371 * pi / 2)
               \<and> (np_lt (crossTrackDistance d13 (bearing a p) (bearing a b)) (Fin 0)
                    \<longleftrightarrow> np_lt (cross_track_sine d13 (bearing a p) (bearing a b)) (Fin 0)))"
proof -
  have sat: "sat = \<lparr>coords = [a, b], name = ''satellite'',
                    distribution = scs_norm (Fin 0) (np_div (Fin ci_range) (Fin 1.96)),
                    R = 6371\<rparr>"
    using assms by (simp add: Satellite_init_def del: np_div.simps)
  have err: "Satellite_distance vincenty_km sat p = Inl e" if "vincenty_km a p = Inl e" for e
    using that by (simp add: sat Satellite_distance_def del: np_div.simps)
  have ok: "Satellite_distance vincenty_km sat p
                 = Inr (crossTrackDistance d13 (bearing a p) (bearing a b))
               \<and> crossTrackDistance d13 (bearing a p) (bearing a b) \<noteq> PInf
               \<and> crossTrackDistance d13 (bearing a p) (bearing a b) \<noteq> NInf
               \<and> (\<forall>x. crossTrackDistance d13 (bearing a p) (bearing a b) = Fin x
                       \<longrightarrow> \<bar>x\<bar> \<le> 6371 * pi / 2)
               \<and> (np_lt (crossTrackDistance d13 (bearing a p) (bearing a b)) (Fin 0)
                    \<longleftrightarrow> np_lt (cross_track_sine d13 (bearing a p) (bearing a b)) (Fin 0))"
    if v: "vincenty_km a p = Inr d13" for d13
  proof -
    let ?s = "cross_track_sine d13 (bearing a p) (bearing a b)"
    let ?c = "crossTrackDistance d13 (bearing a p) (bearing a b)"
    have d: "Satellite_distance vincenty_km sat p = Inr ?c"
      by (simp add: sat Satellite_distance_def v Let_def crossTrackDistance_def
          cross_track_sine_def del: np_div.simps np_mul.simps)
    consider (nan) "?s = NaN"
      | (fin) x where "?s = Fin x" "\<bar>x\<bar> \<le> 1" "x = 0 \<or> float_min_bound < \<bar>x\<bar>"
      using cross_track_sine_cases [of d13 "bearing a p" "bearing a b"] by blast
    then have "?c \<noteq> PInf \<and> ?c \<noteq> NInf \<and> (\<forall>x. ?c = Fin x \<longrightarrow> \<bar>x\<bar> \<le> 6371 * pi / 2)
                  \<and> (np_lt ?c (Fin 0) \<longleftrightarrow> np_lt ?s (Fin 0))"
    proof cases
      case nan
      then have "?c = NaN" by (simp add: crossTrackDistance_def)
      then show ?thesis by (simp add: nan)
    next
      case (fin x)
      have c: "?c = Fin (arcsin x * 6371)"
        using fin by (rule crossTrackDistance_of_sine)
      have b: "- (pi / 2) \<le> arcsin x" "arcsin x \<le> pi / 2"
        using fin(2) by (rule arcsin_abs_bound)+
      then have bound: "\<bar>arcsin x * 6371\<bar> \<le> 6371 * pi / 2"
        by (simp add: abs_mult abs_le_iff)
      have "arcsin x < 0 \<longleftrightarrow> x < 0"
        using fin(2) arcsin_less_mono [of x 0] by simp
      then have sign: "arcsin x * 6371 < 0 \<longleftrightarrow> x < 0"
        by (simp add: mult_less_0_iff)
      show ?thesis
        using bound sign by (simp add: c fin(1))
    qed
    then show ?thesis using d by blast
  qed
  show ?thesis using err ok by blast
qed

theorem Satellite_distance_signed_witness:
  "Satellite_init [(0, 0), (0, 90)] 2.4
     = Inr \<lparr>coords = [(0, 0), (0, 90)], name = ''satellite'',
            distribution = scs_norm (Fin 0) (Fin (2.4 / 1.96)), R = 6371\<rparr>
   \<and> Satellite_distance (\<lambda>a b. Inl ValueError)
         \<lparr>coords = [(0, 0), (0, 90)], name = ''satellite'',
          distribution = scs_norm (Fin 0) (Fin (2.4 / 1.96)), R = 6371\<rparr> (1, 0)
       = Inl ValueError
   \<and> Satellite_distance (\<lambda>a b. Inr 110.574)
         \<lparr>coords = [(0, 0), (0, 90)], name = ''satellite'',
          distribution = scs_norm (Fin 0) (Fin (2.4 / 1.96)), R = 6371\<rparr> (1, 0)
       = Inr (crossTrackDistance 110.574 (bearing (0, 0) (1, 0)) (bearing (0, 0) (0, 90)))
   \<and> np_lt (crossTrackDistance 110.574 (bearing (0, 0) (1, 0)) (bearing (0, 0) (0, 90))) (Fin 0)
   \<and> np_lt (cross_track_sine 110.574 (bearing (0, 0) (1, 0)) (bearing (0, 0) (0, 90))) (Fin 0)"
proof -
  have init: "Satellite_init [(0, 0), (0, 90)] 2.4
     = Inr \<lparr>coords = [(0, 0), (0, 90)], name = ''satellite'',
            distribution = scs_norm (Fin 0) (Fin (2.4 / 1.96)), R = 6371\<rparr>"
    unfolding Satellite_init_def rnd_sigma by simp
  have neg: "np_lt (cross_track_sine 110.574 (bearing (0, 0) (1, 0)) (bearing (0, 0) (0, 90)))
               (Fin 0)"
    using sin_delta_bounds(1) [of "110.574"] cross_track_sine_left [of "110.574"]
    by (simp add: bearing_north bearing_east)
  show ?thesis
    using Satellite_distance_signed [OF init, of "\<lambda>a b. Inl ValueError" "(1, 0)"]
      Satellite_distance_signed [OF init, of "\<lambda>a b. Inr 110.574" "(1, 0)"] init neg
    by blast
qed

text \<open>
  C6, the claim as stated fails: for the path from \<open>(0, 0)\<close> to \<open>(0, 90)\<close> and the query
  point \<open>(1, 0)\<close>, for which \<open>vincenty\<close> gives 110.574 km (one degree of the meridian at the
  equator), \<open>distance\<close> returns the negative number \<open>- 110.574\<close>.
\<close>

theorem Satellite_distance_negative_counterexample:
  "Satellite_init [(0, 0), (0, 90)] 2.4
     = Inr \<lparr>coords = [(0, 0), (0, 90)], name = ''satellite'',
            distribution = scs_norm (Fin 0) (Fin (2.4 / 1.96)), R = 6371\<rparr>
   \<and> Satellite_distance (\<lambda>a b. Inr 110.574)
         \<lparr>coords = [(0, 0), (0, 90)], name = ''satellite'',
          distribution = scs_norm (Fin 0) (Fin (2.4 / 1.96)), R = 6371\<rparr> (1, 0)
       = Inr (Fin (- 110.574))
   \<and> np_lt (Fin (- 110.574)) (Fin 0)"
proof -
  have init: "Satellite_init [(0, 0), (0, 90)] 2.4
     = Inr \<lparr>coords = [(0, 0), (0, 90)], name = ''satellite'',
            distribution = scs_norm (Fin 0) (Fin (2.4 / 1.96)), R = 6371\<rparr>"
    unfolding Satellite_init_def rnd_sigma by simp
  have dist: "Satellite_distance (\<lambda>a b. Inr 110.574)
         \<lparr>coords = [(0, 0), (0, 90)], name = ''satellite'',
          distribution = scs_norm (Fin 0) (Fin (2.4 / 1.96)), R = 6371\<rparr> (1, 0)
       = Inr (Fin (- 110.574))"
    using Satellite_distance_left [of "110.574"] by simp
  show ?thesis
    using init dist by simp
qed

subsection \<open>Mapper.get_distribution\<close>

lemma snd_get_pdf_idem:
  "snd (get_pdf (fst (get_pdf c lats lons)) lats lons) = snd (get_pdf c lats lons)"
  by (auto simp: get_pdf_def split: option.splits sum.splits)

lemma density_sequence_upd:
  "density_sequence self (h(obj := fst (get_pdf (h obj) (latitudes self) (longitudes self)))) r
     = density_sequence self h r"
  by (simp add: density_sequence_def snd_get_pdf_idem)

lemma update_loop_result:
  "snd (update_loop self h d objs) = multiply_all (density_sequence self h) d objs"
proof (induction objs arbitrary: h d)
  case Nil
  then show ?case by simp
next
  case (Cons obj objs)
  obtain ob res where g: "get_pdf (h obj) (latitudes self) (longitudes self) = (ob, res)"
    by (cases "get_pdf (h obj) (latitudes self) (longitudes self)")
  have ds: "density_sequence self h obj = res"
    by (simp add: density_sequence_def g)
  have same: "density_sequence self (h(obj := ob)) = density_sequence self h"
    using density_sequence_upd [of self h obj] by (auto simp: g)
  have IH: "snd (update_loop self (h(obj := ob)) d' objs)
              = multiply_all (density_sequence self h) d' objs" for d'
    using Cons.IH [of "h(obj := ob)" d'] unfolding same .
  show ?case
  proof (cases res)
    case (Inl e)
    then show ?thesis by (simp add: g ds)
  next
    case (Inr probs)
    then show ?thesis by (cases "np_imul d probs") (simp_all add: g ds IH)
  qed
qed

lemma get_distribution_result:
  "snd (get_distribution self h objs) =
     (case multiply_all (density_sequence self h)
             (np_idiv (replicate (length (latitudes self)) (Fin 1))
                (np_sum (replicate (length (latitudes self)) (Fin 1)))) objs of
        Inl e \<Rightarrow> Inl e
      | Inr d \<Rightarrow> Inr (np_idiv d (np_sum d)))"
proof -
  let ?prior = "np_idiv (replicate (length (latitudes self)) (Fin 1))
                  (np_sum (replicate (length (latitudes self)) (Fin 1)))"
  obtain h' res where u: "update_loop self h ?prior objs = (h', res)"
    by (cases "update_loop self h ?prior objs")
  then have r: "multiply_all (density_sequence self h) ?prior objs = res"
    using update_loop_result [of self h ?prior objs] by simp
  show ?thesis
    unfolding r by (cases res) (simp_all add: get_distribution_def Let_def u)
qed

lemma length_linspace: "length (linspace a b n) = n"
  by (simp add: linspace_def)

lemma length_concat_replicate: "length (concat (map (\<lambda>v. replicate k v) ys)) = length ys * k"
  by (induction ys) simp_all

lemma length_latitudes: "length (latitudes (Mapper_init os n)) = n * n"
  by (simp add: Mapper_init_def generate_mesh_grid_def Let_def meshgrid_def flatten_def
      length_linspace length_concat sum_list_replicate)

lemma length_longitudes: "length (longitudes (Mapper_init os n)) = n * n"
  by (simp add: Mapper_init_def generate_mesh_grid_def Let_def meshgrid_def flatten_def
      length_linspace length_concat_replicate)

lemma Mapper_init_2:
  "Mapper_init os 2 = \<lparr>objects = os, latitudes = [SW_LAT, NE_LAT, SW_LAT, NE_LAT],
                        longitudes = [SW_LON, SW_LON, NE_LON, NE_LON]\<rparr>"
  by (simp add: Mapper_init_def generate_mesh_grid_def Let_def meshgrid_def flatten_def
      linspace_def numeral_2_eq_2)

lemma Mapper_init_1:
  "Mapper_init os 1 = \<lparr>objects = os, latitudes = [SW_LAT], longitudes = [SW_LON]\<rparr>"
  by (simp add: Mapper_init_def generate_mesh_grid_def Let_def meshgrid_def flatten_def
      linspace_def)

lemma foldl_np_add_ones:
  assumes "real (a + k) < float_max_bound"
  shows "foldl np_add (Fin (real a)) (replicate k (Fin 1)) = Fin (real (a + k))"
  using assms
proof (induction k arbitrary: a)
  case 0
  then show ?case by simp
next
  case (Suc k)
  have "in_range (real a + 1)"
    using Suc.prems float_bounds by (simp add: in_range_def)
  then have "np_add (Fin (real a)) (Fin 1) = Fin (real (Suc a))"
    by (simp add: rnd_in_range add.commute)
  then show ?case
    using Suc.IH [of "Suc a"] Suc.prems by simp
qed

lemma in_range_inverse_nat:
  assumes "in_range (1 / real N)" "0 < N"
  shows "real N < float_max_bound" "in_range (real N)"
proof -
  have "float_min_normal \<le> 1 / real N"
    using assms by (simp add: in_range_def)
  then have "real N \<le> 2 ^ 1022"
    using assms(2) by (simp add: float_min_normal_def field_simps)
  moreover have "(2::real) ^ 1022 < float_max_bound"
    by (simp add: float_max_bound_def)
  ultimately show "real N < float_max_bound" by linarith
  moreover have "float_min_normal \<le> real N"
    using assms(2) float_bounds(3) by (simp add: order.trans [of _ 1] less_imp_le)
  ultimately show "in_range (real N)" by (simp add: in_range_def)
qed

lemma prior_exact:
  assumes "N = 0 \<or> in_range (1 / real N)"
  shows "np_idiv (replicate N (Fin 1)) (np_sum (replicate N (Fin 1)))
           = map Fin (replicate N (1 / real N))"
proof (cases "N = 0")
  case True
  then show ?thesis by (simp add: np_idiv_def)
next
  case False
  then have r: "in_range (1 / real N)" and pos: "0 < N" using assms by simp_all
  have "np_sum (replicate N (Fin 1)) = Fin (real N)"
    using foldl_np_add_ones [of 0 N] in_range_inverse_nat(1) [OF r pos]
    by (simp add: np_sum_def)
  then show ?thesis
    using False r by (simp add: np_idiv_def rnd_in_range)
qed

lemma np_imul_exact:
  assumes "length p = length d" "\<forall>i<length d. in_range (d ! i * p ! i)"
  shows "np_imul (map Fin d) (map Fin p) = Inr (map Fin (map2 (*) d p))"
  using assms by (simp add: np_imul_def) (intro nth_equalityI, simp_all add: rnd_in_range)

lemma multiply_all_exact:
  assumes "\<forall>obj\<in>set objs. F obj = Inr (map Fin (P obj)) \<and> length (P obj) = length d"
    and "\<forall>k\<le>length objs. \<forall>i<length d.
           in_range (d ! i * prod_list (map (\<lambda>obj. P obj ! i) (take k objs)))"
  shows "multiply_all F (map Fin d) objs =
           Inr (map Fin (map (\<lambda>i. d ! i * prod_list (map (\<lambda>obj. P obj ! i) objs)) [0..<length d]))"
  using assms
proof (induction objs arbitrary: d)
  case Nil
  then show ?case by (simp add: map_nth)
next
  case (Cons obj objs)
  let ?d' = "map2 (*) d (P obj)"
  have F: "F obj = Inr (map Fin (P obj))" and len: "length (P obj) = length d"
    using Cons.prems(1) by simp_all
  have l': "length ?d' = length d" using len by simp
  have first: "\<forall>i<length d. in_range (d ! i * P obj ! i)"
  proof (intro allI impI)
    fix i assume "i < length d"
    then show "in_range (d ! i * P obj ! i)"
      using Cons.prems(2) [rule_format, of 1 i] by simp
  qed
  have rest: "\<forall>k\<le>length objs. \<forall>i<length ?d'.
           in_range (?d' ! i * prod_list (map (\<lambda>obj. P obj ! i) (take k objs)))"
  proof (intro allI impI)
    fix k i assume k: "k \<le> length objs" and i: "i < length ?d'"
    then have "in_range (d ! i * prod_list (map (\<lambda>obj. P obj ! i) (take (Suc k) (obj # objs))))"
      using Cons.prems(2) [rule_format, of "Suc k" i] l' by simp
    then show "in_range (?d' ! i * prod_list (map (\<lambda>obj. P obj ! i) (take k objs)))"
      using i len by (simp add: mult.assoc)
  qed
  have "\<forall>o'\<in>set objs. F o' = Inr (map Fin (P o')) \<and> length (P o') = length ?d'"
    using Cons.prems(1) l' by simp
  then have ih: "multiply_all F (map Fin ?d') objs =
      Inr (map Fin (map (\<lambda>i. ?d' ! i * prod_list (map (\<lambda>obj. P obj ! i) objs)) [0..<length ?d']))"
    using rest by (rule Cons.IH)
  have eq: "map (\<lambda>i. ?d' ! i * prod_list (map (\<lambda>obj. P obj ! i) objs)) [0..<length ?d']
      = map (\<lambda>i. d ! i * prod_list (map (\<lambda>obj. P obj ! i) (obj # objs))) [0..<length d]"
    unfolding l' using len by (intro map_cong) (simp_all add: mult.assoc)
  have step: "multiply_all F (map Fin d) (obj # objs) = multiply_all F (map Fin ?d') objs"
    by (simp add: F np_imul_exact [OF len first])
  show ?case
    by (simp only: step ih eq)
qed

lemma product_mass_nth:
  "i < length (latitudes self) \<Longrightarrow>
     product_mass self P objs ! i
       = 1 / real (length (latitudes self)) * prod_list (map (\<lambda>obj. P obj ! i) objs)"
  by (simp add: product_mass_def)

lemma length_product_mass [simp]: "length (product_mass self P objs) = length (latitudes self)"
  by (simp add: product_mass_def)

lemma multiply_all_product_mass:
  assumes "\<forall>obj\<in>set objs. density_sequence self h obj = Inr (map Fin (P obj))
             \<and> length (P obj) = length (latitudes self)"
    and "\<forall>k\<le>length objs. \<forall>m\<in>set (product_mass self P (take k objs)). in_range m"
  shows "multiply_all (density_sequence self h)
           (np_idiv (replicate (length (latitudes self)) (Fin 1))
              (np_sum (replicate (length (latitudes self)) (Fin 1)))) objs
         = Inr (map Fin (product_mass self P objs))"
proof -
  let ?N = "length (latitudes self)"
  let ?d = "replicate ?N (1 / real ?N)"
  have r: "in_range (product_mass self P (take k objs) ! i)" if "k \<le> length objs" "i < ?N" for k i
    using assms(2) that by (simp add: all_set_conv_all_nth)
  have "?N = 0 \<or> in_range (1 / real ?N)"
  proof (cases "?N = 0")
    case False
    then show ?thesis using r [of 0 0] by (simp add: product_mass_nth)
  qed simp
  then have prior: "np_idiv (replicate ?N (Fin 1)) (np_sum (replicate ?N (Fin 1))) = map Fin ?d"
    by (rule prior_exact)
  have "\<forall>obj\<in>set objs. density_sequence self h obj = Inr (map Fin (P obj))
             \<and> length (P obj) = length ?d"
    using assms(1) by simp
  moreover have "\<forall>k\<le>length objs. \<forall>i<length ?d.
           in_range (?d ! i * prod_list (map (\<lambda>obj. P obj ! i) (take k objs)))"
    using r by (simp add: product_mass_nth)
  ultimately have "multiply_all (density_sequence self h) (map Fin ?d) objs =
      Inr (map Fin (map (\<lambda>i. ?d ! i * prod_list (map (\<lambda>obj. P obj ! i) objs)) [0..<length ?d]))"
    by (rule multiply_all_exact)
  moreover have "map (\<lambda>i. ?d ! i * prod_list (map (\<lambda>obj. P obj ! i) objs)) [0..<length ?d]
                   = product_mass self P objs"
    unfolding product_mass_def by (intro map_cong) simp_all
  ultimately show ?thesis
    unfolding prior by (simp only:)
qed






lemma product_mass_nonneg:
  assumes "\<forall>obj\<in>set objs. length (P obj) = length (latitudes self) \<and> (\<forall>x\<in>set (P obj). 0 \<le> x)"
  shows "\<forall>m\<in>set (product_mass self P objs). 0 \<le> m"
proof -
  have "0 \<le> prod_list (map (\<lambda>obj. P obj ! i) objs)" if "i < length (latitudes self)" for i
    using assms that by (intro prod_list_nonneg) auto
  then show ?thesis
    by (auto simp: product_mass_def)
qed

lemma member_le_sum_list_real:
  fixes xs :: "real list"
  assumes "\<forall>x\<in>set xs. 0 \<le> x" "m \<in> set xs"
  shows "m \<le> sum_list xs"
  using assms
proof (induction xs)
  case Nil
  then show ?case by simp
next
  case (Cons x xs)
  have "0 \<le> sum_list xs" using Cons.prems(1) by (simp add: sum_list_nonneg)
  then show ?case using Cons by auto
qed

lemma foldl_np_add_nonneg:
  assumes "0 \<le> a" "in_range a" "\<forall>x\<in>set xs. 0 \<le> x \<and> in_range x"
    "a + sum_list xs < float_max_bound"
  shows "foldl np_add (Fin a) (map Fin xs) = Fin (a + sum_list xs)"
  using assms
proof (induction xs arbitrary: a)
  case Nil
  then show ?case by simp
next
  case (Cons x xs)
  have x: "0 \<le> x" "in_range x" using Cons.prems(3) by simp_all
  have rest: "0 \<le> sum_list xs" using Cons.prems(3) by (simp add: sum_list_nonneg)
  have "in_range (a + x)"
    using Cons.prems(1,2,4) x rest by (auto simp: in_range_def)
  then have step: "rnd (a + x) = Fin (a + x)"
    by (rule rnd_in_range)
  have "foldl np_add (Fin (a + x)) (map Fin xs) = Fin (a + x + sum_list xs)"
    using Cons.prems x \<open>in_range (a + x)\<close> by (intro Cons.IH) (simp_all add: add.assoc)
  then show ?case
    by (simp add: step add.assoc)
qed

lemma rnd_unit_quotient: "0 \<le> q \<Longrightarrow> q \<le> 1 \<Longrightarrow> rnd q = Fin (flushed q)"
  using float_bounds by (auto simp: rnd_def flushed_def)

lemma flushed_bounds: "0 \<le> q \<Longrightarrow> 0 \<le> flushed q \<and> flushed q \<le> q \<and> q - float_min_bound \<le> flushed q"
  using float_bounds by (auto simp: flushed_def)

lemma flushed_moderate: "1 / 2 ^ 64 \<le> q \<Longrightarrow> flushed q = q"
  using float_bounds float_moderate by (auto simp: flushed_def)

lemma sum_list_minus_const:
  "sum_list (map (\<lambda>x. f x - c) xs) = sum_list (map f xs) - real (length xs) * (c::real)"
  by (induction xs) (simp_all add: algebra_simps)

lemma sum_list_divide: "sum_list (map (\<lambda>m. m / t) ms) = sum_list ms / (t::real)"
  by (induction ms) (simp_all add: add_divide_distrib)

text \<open>
  C1 (as amended). On the lattice of a Mapper of resolution \<open>n\<close>, when every selected clue
  has a density sequence of \<open>n * n\<close> finite non-negative values, no mass computed in the
  loop overflows or underflows (the prior and every running product are in range), and the
  total mass is not zero and below the overflow threshold, the posterior has \<open>n * n\<close>
  entries, all finite and non-negative, that sum to 1 within \<open>n * n\<close> times the underflow
  threshold; its entries are the masses (uniform prior times the density of every selected
  clue at the cell) divided once, at the end, by their total.
\<close>

theorem get_distribution_posterior:
  assumes "self = Mapper_init os n"
    and "\<forall>obj\<in>set objs. density_sequence self h obj = Inr (map Fin (P obj))
           \<and> length (P obj) = n * n \<and> (\<forall>x\<in>set (P obj). 0 \<le> x)"
    and "\<forall>k\<le>length objs. \<forall>m\<in>set (product_mass self P (take k objs)). in_range m"
    and "sum_list (product_mass self P objs) \<noteq> 0"
    and "sum_list (product_mass self P objs) < float_max_bound"
  shows "\<exists>post. snd (get_distribution self h objs) = Inr (map Fin post)
           \<and> length post = n * n \<and> (\<forall>x\<in>set post. 0 \<le> x)
           \<and> 1 - real (n * n) * float_min_bound \<le> sum_list post \<and> sum_list post \<le> 1
           \<and> post = map (\<lambda>m. flushed (m / sum_list (product_mass self P objs)))
                      (product_mass self P objs)"
proof -
  let ?ms = "product_mass self P objs"
  let ?t = "sum_list ?ms"
  let ?post = "map (\<lambda>m. flushed (m / ?t)) ?ms"
  have N: "length (latitudes self) = n * n"
    by (simp add: assms(1) length_latitudes)
  have "\<forall>obj\<in>set objs. density_sequence self h obj = Inr (map Fin (P obj))
          \<and> length (P obj) = length (latitudes self)"
    using assms(2) N by simp
  then have m: "multiply_all (density_sequence self h)
           (np_idiv (replicate (length (latitudes self)) (Fin 1))
              (np_sum (replicate (length (latitudes self)) (Fin 1)))) objs = Inr (map Fin ?ms)"
    using assms(3) by (rule multiply_all_product_mass)
  have nonneg: "\<forall>m\<in>set ?ms. 0 \<le> m"
    using assms(2) N by (intro product_mass_nonneg) simp
  have inr: "\<forall>m\<in>set ?ms. in_range m"
    using assms(3) [rule_format, of "length objs"] by simp
  have total: "np_sum (map Fin ?ms) = Fin ?t"
    unfolding np_sum_def
    using foldl_np_add_nonneg [of 0 ?ms] nonneg inr assms(5) by simp
  have tpos: "0 < ?t"
    using nonneg assms(4) sum_list_nonneg [of ?ms] by fastforce
  have q: "0 \<le> m / ?t \<and> m / ?t \<le> 1" if "m \<in> set ?ms" for m
    using that nonneg tpos member_le_sum_list_real [of ?ms m] by simp
  have "np_idiv (map Fin ?ms) (Fin ?t) = map Fin ?post"
    using tpos q by (simp add: np_idiv_def rnd_unit_quotient)
  then have res: "snd (get_distribution self h objs) = Inr (map Fin ?post)"
    unfolding get_distribution_result m by (simp add: total)
  have len: "length ?post = n * n"
    by (simp add: N)
  have pos: "\<forall>x\<in>set ?post. 0 \<le> x"
    using q flushed_bounds by auto
  have "sum_list ?post \<le> sum_list (map (\<lambda>m. m / ?t) ?ms)"
    using q flushed_bounds by (intro sum_list_mono) simp
  then have upper: "sum_list ?post \<le> 1"
    using tpos by (simp add: sum_list_divide)
  have "sum_list (map (\<lambda>m. m / ?t - float_min_bound) ?ms) \<le> sum_list ?post"
    using q flushed_bounds by (intro sum_list_mono) simp
  then have lower: "1 - real (n * n) * float_min_bound \<le> sum_list ?post"
    using tpos unfolding sum_list_minus_const by (simp add: sum_list_divide N)
  show ?thesis
    using res len pos lower upper by blast
qed

theorem get_distribution_posterior_witness:
  "snd (get_distribution (Mapper_init [0] 2)
          (\<lambda>r. \<lparr>prob = (\<lambda>p. Inr (Fin (if fst p = SW_LAT then 1 else 3))), pdf = None\<rparr>) [0])
     = Inr (map Fin [1 / 8, 3 / 8, 1 / 8, 3 / 8])"
proof -
  let ?h = "\<lambda>r::ref. \<lparr>prob = (\<lambda>p. Inr (Fin (if fst p = SW_LAT then 1 else 3))), pdf = None\<rparr>"
  let ?P = "\<lambda>r::ref. [1, 3, 1, 3::real]"
  have ne: "NE_LAT \<noteq> SW_LAT" by (simp add: NE_LAT_def SW_LAT_def)
  have dens: "\<forall>obj\<in>set [0]. density_sequence (Mapper_init [0] 2) ?h obj = Inr (map Fin (?P obj))
           \<and> length (?P obj) = 2 * 2 \<and> (\<forall>x\<in>set (?P obj). 0 \<le> x)"
    unfolding Mapper_init_2 by (simp add: density_sequence_def get_pdf_def ne)
  have pm0: "product_mass (Mapper_init [0] 2) ?P [] = [1 / 4, 1 / 4, 1 / 4, 1 / 4]"
    unfolding Mapper_init_2 by (simp add: product_mass_def upt_rec)
  have pm: "product_mass (Mapper_init [0] 2) ?P [0] = [1 / 4, 3 / 4, 1 / 4, 3 / 4]"
    unfolding Mapper_init_2 by (simp add: product_mass_def upt_rec)
  have rng: "\<forall>k\<le>length [0::ref]. \<forall>m\<in>set (product_mass (Mapper_init [0] 2) ?P (take k [0])). in_range m"
  proof (intro allI impI)
    fix k assume "k \<le> length [0::ref]"
    then have "k = 0 \<or> k = 1" by auto
    then show "\<forall>m\<in>set (product_mass (Mapper_init [0] 2) ?P (take k [0])). in_range m"
      by (auto simp: pm0 pm in_range_moderate)
  qed
  have mass: "sum_list (product_mass (Mapper_init [0] 2) ?P [0]) \<noteq> 0"
    by (simp add: pm)
  have bound: "sum_list (product_mass (Mapper_init [0] 2) ?P [0]) < float_max_bound"
    using float_moderate(2) by (simp add: pm)
  show ?thesis
    using get_distribution_posterior [OF refl dens rng mass bound]
    by (simp add: pm flushed_moderate)
qed

text \<open>
  C1, the claim as stated fails: on the one-cell lattice (\<open>n = 1\<close>), with a single clue
  whose density at that cell is zero, the posterior consists of one \<open>NaN\<close>; it is not a
  sequence of non-negative reals and its sum is not 1.
\<close>

theorem get_distribution_posterior_counterexample:
  "snd (get_distribution (Mapper_init [0] 1) (\<lambda>r. \<lparr>prob = (\<lambda>p. Inr (Fin 0)), pdf = None\<rparr>) [0])
     = Inr [NaN]
   \<and> np_sum [NaN] \<noteq> Fin 1"
  unfolding Mapper_init_1
  by (simp add: get_distribution_def Let_def np_idiv_def np_sum_def get_pdf_def np_imul_def
      inf_of_sign_def rnd_moderate)

lemma multiply_all_cells:
  assumes "\<forall>obj\<in>set objs. F obj = Inr (P obj) \<and> length (P obj) = length d"
  shows "multiply_all F d objs =
           Inr (map (\<lambda>i. foldl (\<lambda>m obj. np_mul m (P obj ! i)) (d ! i) objs) [0..<length d])"
  using assms
proof (induction objs arbitrary: d)
  case Nil
  then show ?case by (simp add: map_nth)
next
  case (Cons obj objs)
  let ?d' = "map2 np_mul d (P obj)"
  have F: "F obj = Inr (P obj)" and len: "length (P obj) = length d"
    using Cons.prems by simp_all
  have l': "length ?d' = length d" using len by simp
  have "\<forall>o'\<in>set objs. F o' = Inr (P o') \<and> length (P o') = length ?d'"
    using Cons.prems l' by simp
  then have ih: "multiply_all F ?d' objs =
      Inr (map (\<lambda>i. foldl (\<lambda>m obj. np_mul m (P obj ! i)) (?d' ! i) objs) [0..<length ?d'])"
    by (rule Cons.IH)
  have eq: "map (\<lambda>i. foldl (\<lambda>m obj. np_mul m (P obj ! i)) (?d' ! i) objs) [0..<length ?d']
      = map (\<lambda>i. foldl (\<lambda>m obj. np_mul m (P obj ! i)) (d ! i) (obj # objs)) [0..<length d]"
    unfolding l' using len by (intro map_cong) simp_all
  have step: "multiply_all F d (obj # objs) = multiply_all F ?d' objs"
    by (simp add: F np_imul_def len)
  show ?case
    by (simp only: step ih eq)
qed







subsection \<open>Index alignment and Mapper.find_maximum\<close>

lemma np_le_refl: "\<not> np_isnan x \<Longrightarrow> np_le x x"
  by (cases x) simp_all

lemma np_le_not_nan: "np_le x y \<Longrightarrow> \<not> np_isnan x \<and> \<not> np_isnan y"
  by (cases x; cases y) simp_all

lemma np_le_total: "\<not> np_isnan x \<Longrightarrow> \<not> np_isnan y \<Longrightarrow> np_le x y \<or> np_le y x"
  by (cases x; cases y) auto

lemma np_le_trans: "np_le x y \<Longrightarrow> np_le y z \<Longrightarrow> np_le x z"
  by (cases x; cases y; cases z) auto

lemma np_le_antisym_strict: "np_le x y \<Longrightarrow> \<not> np_le z y \<Longrightarrow> \<not> np_isnan z \<Longrightarrow> \<not> np_le z x"
  by (cases x; cases y; cases z) auto

lemma argmax_scan_first_max:
  assumes "is_first_max pre idx" "mp = pre ! idx" "i = length pre"
  shows "is_first_max (pre @ xs) (argmax_scan mp idx i xs)"
  using assms
proof (induction xs arbitrary: pre mp idx i)
  case Nil
  then show ?case by simp
next
  case (Cons x xs)
  have idx: "idx < length pre" using Cons.prems(1) by (simp add: is_first_max_def)
  have all: "\<forall>k<length pre. np_isnan mp \<or> np_le (pre ! k) mp"
    using Cons.prems(1,2) by (simp add: is_first_max_def)
  have before: "\<forall>k<idx. \<not> np_isnan (pre ! k) \<and> \<not> np_le mp (pre ! k)"
    using Cons.prems(1,2) by (simp add: is_first_max_def)
  show ?case
  proof (cases "np_isnan mp")
    case True
    have "is_first_max (pre @ x # xs) idx"
      unfolding is_first_max_def using idx True before Cons.prems(2)
      by (auto simp: nth_append)
    then show ?thesis using True by simp
  next
    case nn: False
    show ?thesis
    proof (cases "np_le x mp")
      case True
      have "is_first_max (pre @ [x]) idx"
        unfolding is_first_max_def using idx nn all before True Cons.prems(2)
        by (auto simp: nth_append less_Suc_eq)
      then have "is_first_max ((pre @ [x]) @ xs) (argmax_scan mp idx (Suc i) xs)"
        using Cons.prems(2,3) idx by (intro Cons.IH) (simp_all add: nth_append)
      then show ?thesis using nn True by simp
    next
      case False
      have pre_le: "\<forall>k<length pre. np_le (pre ! k) mp" using all nn by simp
      have "is_first_max (pre @ [x]) (length pre)"
        unfolding is_first_max_def
      proof (intro conjI allI impI)
        show "length pre < length (pre @ [x])" by simp
      next
        fix k assume "k < length (pre @ [x])"
        then consider "k < length pre" | "k = length pre" by fastforce
        then show "np_isnan ((pre @ [x]) ! length pre) \<or> np_le ((pre @ [x]) ! k) ((pre @ [x]) ! length pre)"
        proof cases
          case 1
          then have "np_le (pre ! k) mp" using pre_le by simp
          moreover have "np_isnan x \<or> np_le mp x"
            using False nn np_le_total by blast
          ultimately have "np_isnan x \<or> np_le (pre ! k) x"
            using np_le_trans by blast
          then show ?thesis using 1 by (simp add: nth_append)
        next
          case 2
          then show ?thesis using np_le_refl by (cases "np_isnan x") simp_all
        qed
      next
        fix k assume "k < length pre"
        then have le: "np_le (pre ! k) mp" using pre_le by simp
        then show "\<not> np_isnan ((pre @ [x]) ! k)"
          using \<open>k < length pre\<close> np_le_not_nan by (simp add: nth_append)
      next
        fix k assume k: "k < length pre"
        then have le: "np_le (pre ! k) mp" using pre_le by simp
        have "\<not> np_le x (pre ! k)"
        proof (cases "np_isnan x")
          case True
          then show ?thesis using np_le_not_nan by blast
        next
          case nx: False
          show ?thesis using le False nx by (rule np_le_antisym_strict)
        qed
        then show "\<not> np_le ((pre @ [x]) ! length pre) ((pre @ [x]) ! k)"
          using k by (simp add: nth_append)
      qed
      then have "is_first_max ((pre @ [x]) @ xs) (argmax_scan x (length pre) (Suc i) xs)"
        using Cons.prems(3) by (intro Cons.IH) simp_all
      then show ?thesis using nn False Cons.prems(3) by simp
    qed
  qed
qed

lemma np_argmax_first_max:
  assumes "ys \<noteq> []"
  shows "\<exists>j. np_argmax ys = Inr j \<and> is_first_max ys j"
proof -
  obtain y rest where ys: "ys = y # rest" using assms by (cases ys) auto
  have "is_first_max [y] 0"
    using np_le_refl by (cases "np_isnan y") (simp_all add: is_first_max_def)
  then have "is_first_max ([y] @ rest) (argmax_scan y 0 1 rest)"
    by (intro argmax_scan_first_max) simp_all
  then show ?thesis by (simp add: ys np_argmax_def)
qed

lemma comprehension_Inr:
  "comprehension f xs = Inr ps \<Longrightarrow> length ps = length xs \<and> (\<forall>i<length xs. f (xs ! i) = Inr (ps ! i))"
proof (induction xs arbitrary: ps)
  case Nil
  then show ?case by simp
next
  case (Cons x xs)
  then obtain y ys where y: "f x = Inr y" and ys: "comprehension f xs = Inr ys" and ps: "ps = y # ys"
    by (auto split: sum.splits)
  from Cons.IH [OF ys] show ?case
    by (auto simp: ps y nth_Cons split: nat.splits)
qed

lemma density_sequence_aligned:
  "cache_aligned self (h obj) \<Longrightarrow>
     density_sequence self h obj
       = comprehension (prob (h obj)) (zip (latitudes self) (longitudes self))"
  by (auto simp: cache_aligned_def density_sequence_def get_pdf_def split: option.splits sum.splits)

text \<open>
  C9 (as amended). On the lattice of a Mapper of resolution \<open>n\<close>, for clues whose \<open>pdf\<close>
  attribute is unset or was computed on this same lattice and that yield a density
  sequence: every density sequence has \<open>n * n\<close> entries and its entry \<open>i\<close> is the density of
  the clue at \<open>(latitudes ! i, longitudes ! i)\<close>; entry \<open>i\<close> of the posterior is the mass of
  cell \<open>i\<close> divided by the total mass; and \<open>find_maximum\<close> returns the lattice coordinate
  \<open>(latitudes ! j, longitudes ! j)\<close> of the first index \<open>j\<close> where the posterior is maximal.
\<close>

theorem lattice_index_alignment:
  assumes "self = Mapper_init os n"
    and "\<forall>obj\<in>set objs. cache_aligned self (h obj) \<and> density_sequence self h obj = Inr (P obj)"
  shows "(\<forall>obj\<in>set objs. length (P obj) = n * n
            \<and> (\<forall>i<n * n. prob (h obj) (latitudes self ! i, longitudes self ! i) = Inr (P obj ! i)))
         \<and> (\<exists>post. snd (get_distribution self h objs) = Inr post \<and> length post = n * n
              \<and> (\<forall>i<n * n. post ! i = np_div (cell_mass self P objs i)
                                        (np_sum (map (cell_mass self P objs) [0..<n * n])))
              \<and> (0 < n \<longrightarrow> (\<exists>j. find_maximum self post
                                     = Inr (latitudes self ! j, longitudes self ! j)
                                   \<and> is_first_max post j)))"
proof -
  let ?lats = "latitudes self" and ?lons = "longitudes self"
  have N: "length ?lats = n * n" and N': "length ?lons = n * n"
    by (simp_all add: assms(1) length_latitudes length_longitudes)
  have a: "length (P obj) = n * n
            \<and> (\<forall>i<n * n. prob (h obj) (?lats ! i, ?lons ! i) = Inr (P obj ! i))"
    if "obj \<in> set objs" for obj
  proof -
    have "comprehension (prob (h obj)) (zip ?lats ?lons) = Inr (P obj)"
      using assms(2) that density_sequence_aligned [of self h obj] by simp
    from comprehension_Inr [OF this] show ?thesis
      by (simp add: N N')
  qed
  let ?prior = "np_idiv (replicate (length ?lats) (Fin 1)) (np_sum (replicate (length ?lats) (Fin 1)))"
  have prior: "?prior = replicate (n * n) (np_div (Fin 1) (np_sum (replicate (n * n) (Fin 1))))"
    by (simp add: np_idiv_def N)
  let ?cells = "map (cell_mass self P objs) [0..<n * n]"
  have "\<forall>obj\<in>set objs. density_sequence self h obj = Inr (P obj) \<and> length (P obj) = length ?prior"
    using assms(2) a by (simp add: prior)
  then have "multiply_all (density_sequence self h) ?prior objs =
           Inr (map (\<lambda>i. foldl (\<lambda>m obj. np_mul m (P obj ! i)) (?prior ! i) objs) [0..<length ?prior])"
    by (rule multiply_all_cells)
  moreover have "map (\<lambda>i. foldl (\<lambda>m obj. np_mul m (P obj ! i)) (?prior ! i) objs) [0..<length ?prior]
                   = ?cells"
    unfolding prior by (intro map_cong) (simp_all add: cell_mass_def N)
  ultimately have m: "multiply_all (density_sequence self h) ?prior objs = Inr ?cells"
    by (simp only:)
  let ?post = "np_idiv ?cells (np_sum ?cells)"
  have res: "snd (get_distribution self h objs) = Inr ?post"
    unfolding get_distribution_result m by simp
  have len: "length ?post = n * n"
    by (simp add: np_idiv_def)
  have entries: "\<forall>i<n * n. ?post ! i = np_div (cell_mass self P objs i) (np_sum ?cells)"
    by (simp add: np_idiv_def)
  have amax: "\<exists>j. find_maximum self ?post = Inr (?lats ! j, ?lons ! j) \<and> is_first_max ?post j"
    if "0 < n"
  proof -
    have "?post \<noteq> []" using len that by auto
    then obtain j where j: "np_argmax ?post = Inr j" "is_first_max ?post j"
      using np_argmax_first_max by blast
    then have "j < n * n" using len by (simp add: is_first_max_def)
    then have "find_maximum self ?post = Inr (?lats ! j, ?lons ! j)"
      by (simp add: find_maximum_def j(1) N N')
    then show ?thesis using j(2) by blast
  qed
  show ?thesis
    using a res len entries amax by blast
qed

theorem lattice_index_alignment_witness:
  "prob \<lparr>prob = (\<lambda>p. Inr (Fin (fst p))), pdf = None\<rparr>
       (latitudes (Mapper_init [0] 2) ! 1, longitudes (Mapper_init [0] 2) ! 1)
     = Inr ([Fin SW_LAT, Fin NE_LAT, Fin SW_LAT, Fin NE_LAT] ! 1)
   \<and> (\<exists>post. snd (get_distribution (Mapper_init [0] 2)
                     (\<lambda>r. \<lparr>prob = (\<lambda>p. Inr (Fin (fst p))), pdf = None\<rparr>) [0]) = Inr post
         \<and> length post = 2 * 2
         \<and> (\<exists>j. find_maximum (Mapper_init [0] 2) post
                   = Inr (latitudes (Mapper_init [0] 2) ! j, longitudes (Mapper_init [0] 2) ! j)))"
proof -
  let ?h = "\<lambda>r::ref. \<lparr>prob = (\<lambda>p. Inr (Fin (fst p))), pdf = None\<rparr>"
  let ?P = "\<lambda>r::ref. [Fin SW_LAT, Fin NE_LAT, Fin SW_LAT, Fin NE_LAT]"
  have hyp: "\<forall>obj\<in>set [0]. cache_aligned (Mapper_init [0] 2) (?h obj)
               \<and> density_sequence (Mapper_init [0] 2) ?h obj = Inr (?P obj)"
    unfolding Mapper_init_2 by (simp add: cache_aligned_def density_sequence_def get_pdf_def)
  have "(1::nat) < 2 * 2" "(0::nat) < 2" by simp_all
  then show ?thesis
    using lattice_index_alignment [OF refl hyp] by fastforce
qed

text \<open>
  C9, the claim as stated fails for a clue that was evaluated on another lattice before:
  after a Mapper of resolution 1 has combined the clue, its density sequence on the lattice
  of a Mapper of resolution 2 is still the one-element sequence of the first lattice.
  Entry 1 of the lattice of resolution 2 has no entry in it (the density there is
  \<open>NE_LAT\<close>), and the posterior is uniform.
\<close>

theorem lattice_index_alignment_counterexample:
  "density_sequence (Mapper_init [0] 2)
       (fst (get_distribution (Mapper_init [0] 1)
               (\<lambda>r. \<lparr>prob = (\<lambda>p. Inr (Fin (fst p))), pdf = None\<rparr>) [0])) 0
     = Inr [Fin SW_LAT]
   \<and> prob (fst (get_distribution (Mapper_init [0] 1)
               (\<lambda>r. \<lparr>prob = (\<lambda>p. Inr (Fin (fst p))), pdf = None\<rparr>) [0]) 0)
        (latitudes (Mapper_init [0] 2) ! 1, longitudes (Mapper_init [0] 2) ! 1)
     = Inr (Fin NE_LAT)
   \<and> snd (get_distribution (Mapper_init [0] 2)
            (fst (get_distribution (Mapper_init [0] 1)
               (\<lambda>r. \<lparr>prob = (\<lambda>p. Inr (Fin (fst p))), pdf = None\<rparr>) [0])) [0])
     = Inr [Fin (1 / 4), Fin (1 / 4), Fin (1 / 4), Fin (1 / 4)]"
proof -
  have h1: "fst (get_distribution (Mapper_init [0] 1)
               (\<lambda>r. \<lparr>prob = (\<lambda>p. Inr (Fin (fst p))), pdf = None\<rparr>) [0])
            = (\<lambda>r. \<lparr>prob = (\<lambda>p. Inr (Fin (fst p))), pdf = None\<rparr>)
                (0 := \<lparr>prob = (\<lambda>p. Inr (Fin (fst p))), pdf = Some [Fin SW_LAT]\<rparr>)"
    unfolding Mapper_init_1
    by (simp add: get_distribution_def Let_def np_idiv_def np_sum_def get_pdf_def np_imul_def
        rnd_moderate)
  have nz: "SW_LAT \<noteq> 0" by (simp add: SW_LAT_def)
  show ?thesis
    unfolding h1 Mapper_init_2 using nz
    by (simp add: density_sequence_def get_distribution_def Let_def np_idiv_def np_sum_def
        get_pdf_def np_imul_def rnd_moderate SW_LAT_def)
qed

end
